theory Spec2Isabelle
  imports Main
begin

section \<open>The printf conversions of the three samplers\<close>

text \<open>
  \<^verbatim>\<open>file_iterate.c\<close>, \<^verbatim>\<open>tc_iterate.c\<close> and \<^verbatim>\<open>wifistats_iterate.c\<close> render the wall clock with
  \<^verbatim>\<open>"Time: %ld.%09ld\n"\<close>. \<open>dec\<close> is the decimal numeral of a natural number, \<open>fmt_ld\<close> is
  \<^verbatim>\<open>%ld\<close> and \<open>fmt_09ld\<close> is \<^verbatim>\<open>%09ld\<close> (zero padding to nine columns, after the sign).
\<close>

definition digit :: "nat \<Rightarrow> char" where
  "digit d = ''0123456789'' ! d"

fun dec :: "nat \<Rightarrow> string" where
  "dec n = (if n < 10 then [digit n] else dec (n div 10) @ [digit (n mod 10)])"

declare dec.simps [simp del]

definition fmt_ld :: "int \<Rightarrow> string" where
  "fmt_ld n = (if n < 0 then CHR ''-'' # dec (nat (- n)) else dec (nat n))"

definition fmt_09ld :: "int \<Rightarrow> string" where
  "fmt_09ld n =
     (if n < 0 then CHR ''-'' # replicate (8 - length (dec (nat (- n)))) CHR ''0'' @ dec (nat (- n))
      else replicate (9 - length (dec (nat n))) CHR ''0'' @ dec (nat n))"

record timespec =
  tv_sec :: int
  tv_nsec :: int

definition time_line :: "timespec \<Rightarrow> string" where
  "time_line t = ''Time: '' @ fmt_ld (tv_sec t) @ ''.'' @ fmt_09ld (tv_nsec t) @ [CHR 0x0A]"

definition separator :: string where
  "separator = ''---'' @ [CHR 0x0A]"

section \<open>Memory reached through a pointer\<close>

text \<open>
  The working buffer is a \<^verbatim>\<open>char *\<close>: a function from offsets to bytes. \<open>store b off s\<close> is the
  memory after the bytes \<open>s\<close> were written at \<^verbatim>\<open>&b[off]\<close>, \<open>load b n\<close> the bytes \<^verbatim>\<open>b[0..n)\<close> that
  \<^verbatim>\<open>write(fd, b, n)\<close> sends. \<^verbatim>\<open>sprintf\<close> writes its text and the terminating NUL.
\<close>

type_synonym cbuf = "nat \<Rightarrow> char"

definition store :: "cbuf \<Rightarrow> nat \<Rightarrow> string \<Rightarrow> cbuf" where
  "store b off s = (\<lambda>i. if off \<le> i \<and> i < off + length s then s ! (i - off) else b i)"

definition load :: "cbuf \<Rightarrow> nat \<Rightarrow> string" where
  "load b n = map b [0..<n]"

definition sprintf :: "cbuf \<Rightarrow> nat \<Rightarrow> string \<Rightarrow> cbuf" where
  "sprintf b off s = store b off (s @ [CHR 0x00])"

definition BUFFERSIZE :: int where
  "BUFFERSIZE = 1024 * 1024"

definition int32 :: "int \<Rightarrow> int" where
  "int32 x = (x + 2 ^ 31) mod 2 ^ 32 - 2 ^ 31"

definition c_div2 :: "int \<Rightarrow> int" where
  "c_div2 x = (if x < 0 then - ((- x) div 2) else x div 2)"

section \<open>The process and its environment\<close>

text \<open>
  The system calls the programs make, over an explicit world: the files the sampler watches
  (\<open>fs\<close>, a path to its bytes), the directories \<^verbatim>\<open>readdir\<close> lists (\<open>dirs\<close>, "." and ".." included),
  the scratch file of \<^verbatim>\<open>mkstemp\<close> (its bytes \<open>tmp_data\<close>, and \<open>tmp_link\<close>, the name it is linked under
  while it has one), the descriptor table (slot \<open>n\<close> is descriptor \<open>n\<close>; \<^verbatim>\<open>open\<close> takes the lowest free
  slot, as POSIX has it), the bytes delivered so far to standard output and to standard error,
  what was written to and what is pending from the child of \<^verbatim>\<open>tc_iterate\<close>, the armed timer period
  and \<^verbatim>\<open>errno\<close>. A write never comes back short and \<^verbatim>\<open>mkstemp\<close> never fails; an \<^verbatim>\<open>open\<close> fails when
  the path is absent.
\<close>

datatype errcode = ENONE | ENOENT | EBADF | EINTR | EINVAL | ESPIPE

fun strerror :: "errcode \<Rightarrow> string" where
  "strerror ENONE = ''Success''"
| "strerror ENOENT = ''No such file or directory''"
| "strerror EBADF = ''Bad file descriptor''"
| "strerror EINTR = ''Interrupted system call''"
| "strerror EINVAL = ''Invalid argument''"
| "strerror ESPIPE = ''Illegal seek''"

datatype ofile = Tty_in | Tty_out | Tty_err | Timerfd | Pipe_r | Pipe_w | Rd string nat | Tmp nat

record world =
  fs :: "string \<Rightarrow> string option"
  dirs :: "string \<Rightarrow> string list option"
  tmp_link :: "string option"
  tmp_data :: string
  fdtab :: "ofile option list"
  stdout :: string
  stderr :: string
  child_in :: string
  child_out :: string
  armed :: "timespec option"
  errno :: errcode

definition boot :: "(string \<Rightarrow> string option) \<Rightarrow> (string \<Rightarrow> string list option) \<Rightarrow> world" where
  "boot files listing =
     \<lparr>fs = files, dirs = listing, tmp_link = None, tmp_data = [],
      fdtab = [Some Tty_in, Some Tty_out, Some Tty_err], stdout = [], stderr = [],
      child_in = [], child_out = [], armed = None, errno = ENONE\<rparr>"

definition fd_lookup :: "world \<Rightarrow> int \<Rightarrow> ofile option" where
  "fd_lookup w fd = (if 0 \<le> fd \<and> nat fd < length (fdtab w) then fdtab w ! nat fd else None)"

definition lowest_free :: "ofile option list \<Rightarrow> nat" where
  "lowest_free tab = length (takeWhile (\<lambda>e. e \<noteq> None) tab)"

definition fd_install :: "ofile \<Rightarrow> world \<Rightarrow> int \<times> world" where
  "fd_install d w =
     (let n = lowest_free (fdtab w) in
      (int n, w\<lparr>fdtab := (if n < length (fdtab w) then (fdtab w)[n := Some d]
                             else fdtab w @ [Some d])\<rparr>))"

definition fd_set :: "int \<Rightarrow> ofile \<Rightarrow> world \<Rightarrow> world" where
  "fd_set fd d w = w\<lparr>fdtab := (fdtab w)[nat fd := Some d]\<rparr>"

definition sys_open :: "string \<Rightarrow> world \<Rightarrow> int \<times> world" where
  "sys_open path w =
     (case fs w path of
        None \<Rightarrow> (- 1, w\<lparr>errno := ENOENT\<rparr>)
      | Some c \<Rightarrow> fd_install (Rd path 0) w)"

definition sys_close :: "int \<Rightarrow> world \<Rightarrow> world" where
  "sys_close fd w =
     (case fd_lookup w fd of
        None \<Rightarrow> w\<lparr>errno := EBADF\<rparr>
      | Some d \<Rightarrow> w\<lparr>fdtab := (fdtab w)[nat fd := None]\<rparr>)"

definition content :: "world \<Rightarrow> string \<Rightarrow> string" where
  "content w path = (case fs w path of None \<Rightarrow> [] | Some c \<Rightarrow> c)"

definition sys_read :: "int \<Rightarrow> nat \<Rightarrow> world \<Rightarrow> int \<times> string \<times> world" where
  "sys_read fd n w =
     (case fd_lookup w fd of
        Some (Rd path pos) \<Rightarrow>
          (let d = take n (drop pos (content w path))
           in (int (length d), d, fd_set fd (Rd path (pos + length d)) w))
      | Some (Tmp pos) \<Rightarrow>
          (let d = take n (drop pos (tmp_data w))
           in (int (length d), d, fd_set fd (Tmp (pos + length d)) w))
      | Some Pipe_r \<Rightarrow>
          (let d = take n (child_out w)
           in (int (length d), d, w\<lparr>child_out := drop n (child_out w)\<rparr>))
      | Some Tty_in \<Rightarrow> (0, [], w)
      | _ \<Rightarrow> (- 1, [], w\<lparr>errno := EBADF\<rparr>))"

definition overwrite :: "nat \<Rightarrow> string \<Rightarrow> string \<Rightarrow> string" where
  "overwrite pos s old =
     take pos (old @ replicate (pos - length old) (CHR 0x00)) @ s @ drop (pos + length s) old"

definition sys_write :: "int \<Rightarrow> string \<Rightarrow> world \<Rightarrow> int \<times> world" where
  "sys_write fd s w =
     (case fd_lookup w fd of
        Some Tty_out \<Rightarrow> (int (length s), w\<lparr>stdout := stdout w @ s\<rparr>)
      | Some Tty_err \<Rightarrow> (int (length s), w\<lparr>stderr := stderr w @ s\<rparr>)
      | Some Pipe_w \<Rightarrow> (int (length s), w\<lparr>child_in := child_in w @ s\<rparr>)
      | Some (Tmp pos) \<Rightarrow>
          (int (length s),
           fd_set fd (Tmp (pos + length s)) (w\<lparr>tmp_data := overwrite pos s (tmp_data w)\<rparr>))
      | _ \<Rightarrow> (- 1, w\<lparr>errno := EBADF\<rparr>))"

definition sys_lseek0 :: "int \<Rightarrow> world \<Rightarrow> world" where
  "sys_lseek0 fd w =
     (case fd_lookup w fd of
        Some (Rd path pos) \<Rightarrow> fd_set fd (Rd path 0) w
      | Some (Tmp pos) \<Rightarrow> fd_set fd (Tmp 0) w
      | Some d \<Rightarrow> w\<lparr>errno := ESPIPE\<rparr>
      | None \<Rightarrow> w\<lparr>errno := EBADF\<rparr>)"

text \<open>
  \<^verbatim>\<open>mkstemp\<close> replaces the six X of the template by characters of its choice (\<open>suffix\<close>, given by
  the environment), creates the file under that name opened for reading and writing, and
  leaves the name in the caller's array.
\<close>

definition sys_mkstemp :: "string \<Rightarrow> string \<Rightarrow> world \<Rightarrow> int \<times> string \<times> world" where
  "sys_mkstemp template suffix w =
     (let name = take (length template - 6) template @ suffix;
          r = fd_install (Tmp 0) (w\<lparr>tmp_link := Some name, tmp_data := []\<rparr>)
      in (fst r, name, snd r))"

definition sys_unlink :: "string \<Rightarrow> world \<Rightarrow> world" where
  "sys_unlink path w =
     (if tmp_link w = Some path then w\<lparr>tmp_link := None\<rparr>
      else case fs w path of
             Some c \<Rightarrow> w\<lparr>fs := (fs w)(path := None)\<rparr>
           | None \<Rightarrow> w\<lparr>errno := ENOENT\<rparr>)"

definition timerfd_create :: "world \<Rightarrow> int \<times> world" where
  "timerfd_create w = fd_install Timerfd w"

definition timerfd_settime :: "timespec \<Rightarrow> world \<Rightarrow> world" where
  "timerfd_settime period w = w\<lparr>armed := Some period\<rparr>"

definition perror :: "string \<Rightarrow> world \<Rightarrow> world" where
  "perror msg w = snd (sys_write 2 (msg @ '': '' @ strerror (errno w) @ [CHR 0x0A]) w)"

section \<open>What the environment hands to one iteration\<close>

text \<open>
  Every iteration of the three sampling loops blocks in \<^verbatim>\<open>read(timer, &fired, sizeof(fired))\<close>.
  A \<open>tick\<close> is what the environment decides for that iteration: the value the read returns
  (\<open>t_ret\<close>), what the local \<^verbatim>\<open>long long fired\<close> holds after the call (\<open>t_fired\<close>: the number of
  expirations when the read returned 8; the variable is declared without an initialiser, so
  after a failed read it holds whatever its stack slot held), \<^verbatim>\<open>errno\<close> after a failed read, the
  watched files as they stand when the read returns, what the child of \<^verbatim>\<open>tc_iterate\<close> has written
  by then, and what \<^verbatim>\<open>clock_gettime(CLOCK_REALTIME)\<close> answers in this iteration.
\<close>

record tick =
  t_ret :: int
  t_fired :: int
  t_errno :: errcode
  t_fs :: "string \<Rightarrow> string option"
  t_child :: string
  t_now :: timespec

text \<open>
  The options of the three programs (\<^verbatim>\<open>struct arg\<close>): \<open>a_filename\<close> is read by \<^verbatim>\<open>file_iterate\<close>, \<open>a_dev\<close> by
  \<^verbatim>\<open>wifistats_iterate\<close>, \<open>a_interface\<close> and \<open>a_command\<close> by \<^verbatim>\<open>tc_iterate\<close>; a NULL pointer is \<open>None\<close>. The
  fields carry the prefix \<open>a_\<close> of \<^verbatim>\<open>a->count\<close>; \<^verbatim>\<open>size\<close> of the source is \<open>sz\<close> below.
\<close>

record args =
  a_count :: int
  a_interval :: timespec
  a_filename :: "string option"
  a_dev :: "string option"
  a_interface :: string
  a_command :: string
  a_buffer :: bool

datatype status = Exit int | Return int

definition read_timer :: "tick \<Rightarrow> world \<Rightarrow> world" where
  "read_timer tk w =
     (let w1 = w\<lparr>fs := t_fs tk, child_out := child_out w @ t_child tk\<rparr>;
          w2 = (if t_ret tk < 0 then w1\<lparr>errno := t_errno tk\<rparr> else w1)
      in if t_ret tk \<noteq> 8 then perror ''reading timer'' w2 else w2)"

text \<open>\<^verbatim>\<open>do { body } while (again)\<close> over the ticks the environment supplies; \<open>None\<close> when they run
  out before the loop has left.\<close>

fun do_while :: "(tick \<Rightarrow> 's \<Rightarrow> 's) \<Rightarrow> ('s \<Rightarrow> bool) \<Rightarrow> tick list \<Rightarrow> 's \<Rightarrow> 's option" where
  "do_while body again [] s = None"
| "do_while body again (tk # tks) s =
     (let s' = body tk s in if again s' then do_while body again tks s' else Some s')"

section \<open>file\_iterate.c\<close>

lemma sys_read_le: "sys_read fd n w = (r, d, w') \<Longrightarrow> r \<le> int n"
  by (auto simp: sys_read_def Let_def split: option.splits ofile.splits)

text \<open>The loop of \<^verbatim>\<open>read_once\<close>: every \<^verbatim>\<open>read\<close> lands at \<^verbatim>\<open>buffer\<close> itself, not at \<^verbatim>\<open>buffer + len\<close>.\<close>

function read_loop :: "int \<Rightarrow> int \<Rightarrow> int \<Rightarrow> cbuf \<Rightarrow> world \<Rightarrow> int \<times> cbuf \<times> world" where
  "read_loop fp bufsize len buffer w =
     (case sys_read fp (nat (bufsize - len)) w of
        (r, d, w') \<Rightarrow>
          if r > 0 then read_loop fp bufsize (len + r) (store buffer 0 d) w'
          else (len, buffer, w'))"
  by pat_completeness auto
termination
  apply (relation "measure (\<lambda>(fp, bufsize, len, buffer, w). nat (bufsize - len))")
   apply simp
  apply (auto dest!: sys_read_le [OF sym] split: if_splits)
  done

declare read_loop.simps [simp del]

definition read_once :: "string \<Rightarrow> cbuf \<Rightarrow> int \<Rightarrow> world \<Rightarrow> int \<times> cbuf \<times> world" where
  "read_once name buffer bufsize w =
     (case sys_open name w of
        (fp, w1) \<Rightarrow>
          if fp = 0 then (- 1, buffer, perror ''Unable to open file'' w1)
          else read_loop fp bufsize 0 buffer w1)"

text \<open>\<^verbatim>\<open>result\<close> of \<^verbatim>\<open>file_iterate.c\<close>; \<^verbatim>\<open>tc_iterate.c\<close> has the same function, letter for letter.
  \<^verbatim>\<open>sizeof("Buffer Overrun\n")\<close> is 16: the terminating NUL is written too.\<close>

definition result :: "int \<Rightarrow> int \<Rightarrow> int \<Rightarrow> cbuf \<Rightarrow> timespec \<Rightarrow> world \<Rightarrow> cbuf \<times> world" where
  "result out sz bufsize buffer now w =
     (if bufsize - sz > 40 then
        (let line = time_line now @ separator;
             added = int (length line);
             buffer' = sprintf buffer (nat sz) line
         in (buffer', snd (sys_write out (load buffer' (nat (sz + added))) w)))
      else (buffer, snd (sys_write 2 (''Buffer Overrun'' @ [CHR 0x0A, CHR 0x00]) w)))"

text \<open>One iteration of the loop of \<^verbatim>\<open>run\<close>; the state is \<^verbatim>\<open>ctr\<close>, the buffer and the world.\<close>

fun tick_file :: "string \<Rightarrow> int \<Rightarrow> tick \<Rightarrow> int \<times> cbuf \<times> world \<Rightarrow> int \<times> cbuf \<times> world" where
  "tick_file name out tk (ctr, buffer, w) =
     (let w1 = read_timer tk w;
          ctr' = int32 (ctr + t_fired tk)
      in case read_once name buffer BUFFERSIZE w1 of
           (sz, buffer1, w2) \<Rightarrow>
             if sz > 0 then
               (case result out sz BUFFERSIZE buffer1 (t_now tk) w2 of
                  (buffer2, w3) \<Rightarrow> (ctr', buffer2, w3))
             else
               (case result out 0 BUFFERSIZE buffer1 (t_now tk) w2 of
                  (buffer2, w3) \<Rightarrow> (ctr', buffer2, perror ''reading file'' w3)))"

definition again :: "args \<Rightarrow> int \<times> cbuf \<times> world \<Rightarrow> bool" where
  "again a s = (fst s < a_count a)"

text \<open>The copy of the scratch file to standard output after the loop.\<close>

partial_function (option) copy_out :: "int \<Rightarrow> cbuf \<Rightarrow> world \<Rightarrow> (cbuf \<times> world) option" where
  "copy_out out buffer w =
     (case sys_read out (nat BUFFERSIZE) w of
        (sz, d, w1) \<Rightarrow>
          if sz > 0 then
            copy_out out (store buffer 0 d) (snd (sys_write 1 (load (store buffer 0 d) (nat sz)) w1))
          else Some (buffer, w1))"

definition usage_file :: string where
  "usage_file = ''file_iterate [options]'' @ [CHR 0x0A]
     @ [CHR 0x09] @ ''-h --help '' @ [CHR 0x0A]
     @ [CHR 0x09] @ ''-b --buffer '' @ [CHR 0x0A]
     @ [CHR 0x09] @ ''-c --count     [number of iterations]'' @ [CHR 0x0A]
     @ [CHR 0x09] @ ''-I --interval  [fractional number of seconds]'' @ [CHR 0x0A]
     @ [CHR 0x09] @ ''-f --filename  [filename]'' @ [CHR 0x0A]"

definition usage :: "string \<Rightarrow> string option \<Rightarrow> world \<Rightarrow> status \<times> world" where
  "usage help err w =
     (let w1 = (case err of None \<Rightarrow> w | Some e \<Rightarrow> snd (sys_write 2 (e @ [CHR 0x0A]) w))
      in (Exit (- 1), snd (sys_write 1 help w1)))"

definition run_file :: "args \<Rightarrow> string \<Rightarrow> cbuf \<Rightarrow> tick list \<Rightarrow> world \<Rightarrow> (status \<times> world) option" where
  "run_file a suffix buffer0 ticks w0 =
     (case (if a_buffer a then sys_mkstemp ''/tmp/file_iterateXXXXXX'' suffix w0
            else (1, ''/tmp/file_iterateXXXXXX'', w0)) of
        (out, tmpfile, w1) \<Rightarrow>
          if a_buffer a \<and> out = 0 then Some (Exit (- 1), perror ''Unable to create tmpfile'' w1)
          else
            (case a_filename a of
               None \<Rightarrow> Some (usage usage_file (Some ''Must specify filename'') w1)
             | Some name \<Rightarrow>
                 (case timerfd_create w1 of
                    (timer, w2) \<Rightarrow>
                      (case read_once name buffer0 BUFFERSIZE w2 of
                         (n, buffer1, w3) \<Rightarrow>
                           if n \<le> 0 then Some (Exit (- 1), perror ''Unable to read file'' w3)
                           else
                             (case do_while (tick_file name out) (again a) ticks
                                     (0, buffer1, timerfd_settime (a_interval a) w3) of
                                None \<Rightarrow> None
                              | Some (ctr, buffer2, w4) \<Rightarrow>
                                  if a_buffer a then
                                    (case copy_out out buffer2 (sys_lseek0 out w4) of
                                       None \<Rightarrow> None
                                     | Some (buffer3, w5) \<Rightarrow>
                                         Some (Return 0, sys_close out (sys_unlink tmpfile w5)))
                                  else Some (Return 0, sys_close out w4))))))"

section \<open>wifistats\_iterate.c\<close>

text \<open>
  \<^verbatim>\<open>station_stats\<close>: the two descriptors, the station's name and the two paths. The array
  \<^verbatim>\<open>station_stats *stations\<close> is a function from the index; what \<^verbatim>\<open>malloc\<close> returned (the memory is
  not initialised) is an argument of \<open>run_wifi\<close>. Station names are link-layer addresses of 17
  characters, which fill \<^verbatim>\<open>macaddr[6*3]\<close> with their NUL.
\<close>

record station_stats =
  rc_stats :: int
  airtime :: int
  macaddr :: string
  airtime_file :: string
  rc_stats_file :: string

type_synonym stations = "nat \<Rightarrow> station_stats"

definition reset_one :: "nat \<Rightarrow> stations \<times> world \<Rightarrow> stations \<times> world" where
  "reset_one i = (\<lambda>(S, w).
     (let w1 = (if rc_stats (S i) \<noteq> 0 then sys_close (rc_stats (S i)) w else w);
          w2 = (if airtime (S i) \<noteq> 0 then sys_close (airtime (S i)) w1 else w1);
          r = sys_open (rc_stats_file (S i)) w2;
          t = sys_open (airtime_file (S i)) (snd r)
      in (S(i := (S i)\<lparr>rc_stats := fst r, airtime := fst t\<rparr>), snd t)))"

definition stations_reset :: "stations \<Rightarrow> int \<Rightarrow> world \<Rightarrow> stations \<times> world" where
  "stations_reset S cnt w = fold reset_one [0..<nat cnt] (S, w)"

definition dir_exists :: "string \<Rightarrow> world \<Rightarrow> string list option \<times> world" where
  "dir_exists dir w =
     (case dirs w dir of
        None \<Rightarrow> (None, perror ''Error : Failed to open stations directory'' (w\<lparr>errno := ENOENT\<rparr>))
      | Some names \<Rightarrow> (Some names, w))"

definition stations_dir :: "int \<Rightarrow> string \<Rightarrow> string" where
  "stations_dir i d = ''/sys/kernel/debug/ieee80211/phy'' @ fmt_ld i @ ''/netdev:'' @ d @ ''/stations''"

fun wifi_where_from :: "string \<Rightarrow> nat list \<Rightarrow> world \<Rightarrow> int \<times> world" where
  "wifi_where_from d [] w = (- 1, w)"
| "wifi_where_from d (i # rest) w =
     (case dir_exists (stations_dir (int i) d) w of
        (None, w') \<Rightarrow> wifi_where_from d rest w'
      | (Some names, w') \<Rightarrow> (int i, w'))"

definition wifi_where :: "string \<Rightarrow> world \<Rightarrow> int \<times> world" where
  "wifi_where d w = wifi_where_from d [0..<10] w"

fun count_names :: "string list \<Rightarrow> int \<Rightarrow> int" where
  "count_names [] cnt = cnt"
| "count_names (name # rest) cnt =
     (if name = ''.'' then count_names rest cnt
      else if name = ''..'' then count_names rest cnt
      else count_names rest (cnt + 1))"

definition count_stations :: "string \<Rightarrow> world \<Rightarrow> int \<times> world" where
  "count_stations d w =
     (case wifi_where d w of
        (phy, w1) \<Rightarrow>
          (case dir_exists (stations_dir phy d) w1 of
             (None, w2) \<Rightarrow> (- 1, w2)
           | (Some names, w2) \<Rightarrow> (count_names names 0, w2)))"

text \<open>The \<^verbatim>\<open>readdir\<close> loop of \<^verbatim>\<open>stations_open\<close>, over the names still to come.\<close>

fun scan_dir :: "string \<Rightarrow> int \<Rightarrow> string list \<Rightarrow> int \<times> stations \<times> world \<Rightarrow> int \<times> stations \<times> world" where
  "scan_dir dir limit [] (cnt, S, w) = (cnt, S, w)"
| "scan_dir dir limit (name # rest) (cnt, S, w) =
     (if name = ''.'' then scan_dir dir limit rest (cnt, S, w)
      else if name = ''..'' then scan_dir dir limit rest (cnt, S, w)
      else
        (let S' = S(nat cnt := (S (nat cnt))
                     \<lparr>macaddr := name,
                      airtime_file := dir @ ''/'' @ name @ ''/'' @ ''airtime'',
                      rc_stats_file := dir @ ''/'' @ name @ ''/'' @ ''rc_stats_csv''\<rparr>)
         in if cnt + 1 > limit
            then (cnt + 1, S', perror (''Error : Too many stations to process'' @ [CHR 0x0A]) w)
            else scan_dir dir limit rest (cnt + 1, S', w)))"

definition stations_open :: "string \<Rightarrow> stations \<Rightarrow> int \<Rightarrow> world \<Rightarrow> int \<times> stations \<times> world" where
  "stations_open d S limit w =
     (let S0 = S(0 := (S 0)\<lparr>rc_stats := - 1, airtime := - 1\<rparr>);
          limit' = c_div2 limit
      in case wifi_where d w of
           (phy, w1) \<Rightarrow>
             (case dir_exists (stations_dir phy d) w1 of
                (None, w2) \<Rightarrow> (- 1, S0, w2)
              | (Some names, w2) \<Rightarrow>
                  (case scan_dir (stations_dir phy d) limit' names (0, S0, w2) of
                     (cnt, S1, w3) \<Rightarrow>
                       (cnt, S1(nat cnt := (S1 (nat cnt))\<lparr>rc_stats := - 1, airtime := - 1\<rparr>), w3))))"

definition close_one :: "stations \<Rightarrow> nat \<Rightarrow> world \<Rightarrow> world" where
  "close_one S i w = sys_close (airtime (S i)) (sys_close (rc_stats (S i)) w)"

definition stations_close :: "stations \<Rightarrow> int \<Rightarrow> world \<Rightarrow> world" where
  "stations_close S cnt w = fold (close_one S) [0..<nat cnt] w"

text \<open>One station of \<^verbatim>\<open>stations_read\<close>; the state is the buffer, \<^verbatim>\<open>size\<close> and the world.\<close>

definition read_stream :: "int \<Rightarrow> string \<Rightarrow> cbuf \<times> int \<times> world \<Rightarrow> cbuf \<times> int \<times> world" where
  "read_stream fd label = (\<lambda>(buf, sz, w).
     if fd > 0 then
       (let buf1 = sprintf buf (nat sz) label;
            sz1 = sz + int (length label);
            r = sys_read fd 8192 w;
            buf2 = store buf1 (nat sz1) (fst (snd r))
        in (buf2, if fst r > 0 then sz1 + fst r else sz1, snd (snd r)))
     else (buf, sz, w))"

definition read_one :: "stations \<Rightarrow> nat \<Rightarrow> cbuf \<times> int \<times> world \<Rightarrow> cbuf \<times> int \<times> world" where
  "read_one S i = (\<lambda>(buf, sz, w).
     (let label = ''Station: '' @ macaddr (S i) @ [CHR 0x0A]
      in read_stream (rc_stats (S i)) (''RC stats:'' @ [CHR 0x0A])
           (read_stream (airtime (S i)) (''Airtime:'' @ [CHR 0x0A])
              (sprintf buf (nat sz) label, sz + int (length label), w))))"

definition stations_read :: "stations \<Rightarrow> cbuf \<Rightarrow> int \<Rightarrow> world \<Rightarrow> int \<times> cbuf \<times> world" where
  "stations_read S buf cnt w =
     (case fold (read_one S) [0..<nat cnt] (buf, 0, w) of (buf', sz, w') \<Rightarrow> (sz, buf', w'))"

text \<open>\<^verbatim>\<open>result\<close> of \<^verbatim>\<open>wifistats_iterate.c\<close>: one \<^verbatim>\<open>writev\<close> of three segments. \<^verbatim>\<open>err\<close> is the value of the
  comparison \<^verbatim>\<open>writev(out,iov,3) == -1\<close>.\<close>

definition result_wifi :: "int \<Rightarrow> int \<Rightarrow> int \<Rightarrow> cbuf \<Rightarrow> timespec \<Rightarrow> world \<Rightarrow> int \<times> world" where
  "result_wifi out sz bufsize buffer now w =
     (let mtime = time_line now in
      if bufsize - sz > 40 then
        (case sys_write out (mtime @ load buffer (nat sz) @ separator) w of
           (n, w') \<Rightarrow>
             if n = - 1 then (1, perror ''Write failed - out of disk?'' w') else (0, w'))
      else (0, snd (sys_write 2 (''Buffer Overrun'' @ [CHR 0x0A, CHR 0x00]) w)))"

text \<open>One iteration of the loop of \<^verbatim>\<open>run\<close>; the state is \<^verbatim>\<open>ctr\<close>, \<^verbatim>\<open>err\<close>, the stations, the buffer
  and the world.\<close>

fun tick_wifi :: "int \<Rightarrow> int \<Rightarrow> tick \<Rightarrow> int \<times> int \<times> stations \<times> cbuf \<times> world
    \<Rightarrow> int \<times> int \<times> stations \<times> cbuf \<times> world" where
  "tick_wifi c out tk (ctr, err, S, buffer, w) =
     (let w1 = read_timer tk w;
          ctr' = int32 (ctr + t_fired tk)
      in case stations_reset S c w1 of
           (S1, w2) \<Rightarrow>
             (case stations_read S1 buffer c w2 of
                (sz, buffer1, w3) \<Rightarrow>
                  if sz > 0 then
                    (case result_wifi out sz BUFFERSIZE buffer1 (t_now tk) w3 of
                       (e, w4) \<Rightarrow> (ctr', e, S1, buffer1, w4))
                  else
                    (case result_wifi out 0 BUFFERSIZE buffer1 (t_now tk) w3 of
                       (e, w4) \<Rightarrow> (ctr', e, S1, buffer1, perror ''reading file'' w4))))"

definition again_wifi :: "args \<Rightarrow> int \<times> int \<times> stations \<times> cbuf \<times> world \<Rightarrow> bool" where
  "again_wifi a s = (\<not> fst (snd s) < 0 \<and> fst s < a_count a)"

definition usage_wifi :: string where
  "usage_wifi = ''wifistats_iterate [options]'' @ [CHR 0x0A]
     @ [CHR 0x09] @ ''-h --help '' @ [CHR 0x0A]
     @ [CHR 0x09] @ ''-b --buffer    [buffer up the output locally]'' @ [CHR 0x0A]
     @ [CHR 0x09] @ ''-c --count     [number of iterations]'' @ [CHR 0x0A]
     @ [CHR 0x09] @ ''-I --interval  [fractional number of seconds]'' @ [CHR 0x0A]
     @ [CHR 0x09] @ ''-i --interface [wifi interface]'' @ [CHR 0x0A]"

definition run_wifi :: "args \<Rightarrow> string \<Rightarrow> stations \<Rightarrow> cbuf \<Rightarrow> tick list \<Rightarrow> world \<Rightarrow> (status \<times> world) option" where
  "run_wifi a suffix heap buffer0 ticks w0 =
     (case (if a_buffer a then sys_mkstemp ''/tmp/wifistats_iterateXXXXXX'' suffix w0
            else (1, ''/tmp/wifistats_iterateXXXXXX'', w0)) of
        (out, tmpfile, w1) \<Rightarrow>
          if a_buffer a \<and> out = 0 then Some (Exit (- 1), perror ''Unable to create tmpfile'' w1)
          else
            (case a_dev a of
               None \<Rightarrow> Some (usage usage_wifi (Some ''Must specify wifi device'') (sys_unlink tmpfile w1))
             | Some d \<Rightarrow>
                 (case count_stations d (sys_unlink tmpfile w1) of
                    (c0, w2) \<Rightarrow>
                      if \<not> c0 > 0 then Some (usage usage_wifi (Some ''No stations found'') w2)
                      else
                        (case stations_open d heap 512 w2 of
                           (c, S, w3) \<Rightarrow>
                             if c < 1 then Some (usage usage_wifi (Some ''No stations found'') w3)
                             else
                               (case timerfd_create w3 of
                                  (timer, w4) \<Rightarrow>
                                    (case do_while (tick_wifi c out) (again_wifi a) ticks
                                            (0, 0, S, buffer0, timerfd_settime (a_interval a) w4) of
                                       None \<Rightarrow> None
                                     | Some (ctr, err, S', buffer1, w5) \<Rightarrow>
                                         (case (if a_buffer a then copy_out out buffer1 (sys_lseek0 out w5)
                                                else Some (buffer1, w5)) of
                                            None \<Rightarrow> None
                                          | Some (buffer2, w6) \<Rightarrow>
                                              Some (Return 0,
                                                    stations_close S' c (sys_close timer (sys_close out w6))))))))))"

section \<open>tc\_iterate.c\<close>

text \<open>
  \<^verbatim>\<open>pipe\<close> takes two descriptors, the read end first. Only \<^verbatim>\<open>in\<close> (\<open>inp\<close> below, the read end of the
  child's output) and \<^verbatim>\<open>tool\<close> (the write end of the child's input) are used; the parent closes
  the two other ends untouched. The child (\<^verbatim>\<open>tc -s -b -\<close>) is the environment: what it has written
  arrives with the tick.
\<close>

definition sys_pipe :: "world \<Rightarrow> int \<times> int \<times> world" where
  "sys_pipe w =
     (let r = fd_install Pipe_r w; t = fd_install Pipe_w (snd r) in (fst r, fst t, snd t))"

fun tick_tc :: "string \<Rightarrow> int \<Rightarrow> int \<Rightarrow> int \<Rightarrow> tick \<Rightarrow> int \<times> cbuf \<times> world \<Rightarrow> int \<times> cbuf \<times> world" where
  "tick_tc cmd tool inp out tk (ctr, buffer, w) =
     (let r0 = sys_write tool cmd w;
          w0 = (if fst r0 = - 1 then perror ''writing cmd'' (snd r0) else snd r0);
          w1 = read_timer tk w0;
          ctr' = int32 (ctr + t_fired tk);
          r = sys_read inp (nat BUFFERSIZE) w1;
          sz = fst r;
          buffer1 = store buffer 0 (fst (snd r));
          w2 = snd (snd r)
      in if sz > 0 then
           (case result out sz BUFFERSIZE buffer1 (t_now tk) w2 of
              (buffer2, w3) \<Rightarrow> (ctr', buffer2, w3))
         else
           (case result out 0 BUFFERSIZE buffer1 (t_now tk) w2 of
              (buffer2, w3) \<Rightarrow> (ctr', buffer2, perror ''reading cmd output'' w3)))"

definition forkit :: "args \<Rightarrow> string \<Rightarrow> cbuf \<Rightarrow> tick list \<Rightarrow> world \<Rightarrow> (status \<times> world) option" where
  "forkit a suffix buffer0 ticks w0 =
     (case sys_pipe w0 of
        (filedes0, tool, wa) \<Rightarrow>
          (case sys_pipe wa of
             (inp, filedes2_1, wb) \<Rightarrow>
               (case (if a_buffer a then sys_mkstemp ''/tmp/tc_iterateXXXXXX'' suffix wb
                      else (1, ''/tmp/tc_iterateXXXXXX'', wb)) of
                  (out, tmpfile, w1) \<Rightarrow>
                    if a_buffer a \<and> out = 0
                    then Some (Exit (- 1), perror ''Unable to create tmpfile'' w1)
                    else
                      (case timerfd_create (sys_close filedes0 (sys_close filedes2_1 w1)) of
                         (timer, w2) \<Rightarrow>
                           (case do_while
                                   (tick_tc (a_command a @ '' show dev '' @ a_interface a @ [CHR 0x0A])
                                      tool inp out)
                                   (again a) ticks (0, buffer0, timerfd_settime (a_interval a) w2) of
                              None \<Rightarrow> None
                            | Some (ctr, buffer1, w3) \<Rightarrow>
                                if a_buffer a then
                                  (case copy_out out buffer1 (sys_lseek0 out (sys_close inp (sys_close tool w3))) of
                                     None \<Rightarrow> None
                                   | Some (buffer2, w4) \<Rightarrow>
                                       Some (Return 0, sys_close out (sys_unlink tmpfile w4)))
                                else Some (Return 0, sys_close out (sys_close inp (sys_close tool w3))))))))"

section \<open>Predicates and functions of the proofs\<close>

text \<open>\<open>keeps w w'\<close>: every descriptor open in \<open>w\<close> is the same open file in \<open>w'\<close>.\<close>

definition keeps :: "world \<Rightarrow> world \<Rightarrow> bool" where
  "keeps w w' \<longleftrightarrow> (\<forall>fd. fd_lookup w fd \<noteq> None \<longrightarrow> fd_lookup w' fd = fd_lookup w fd)"

text \<open>\<open>std w\<close>: descriptors 0, 1 and 2 are open, 1 on the standard output and 2 on the standard
  error. \<open>staged out w\<close>: \<open>out\<close> is open on the scratch file, positioned at its end.\<close>

definition std :: "world \<Rightarrow> bool" where
  "std w \<longleftrightarrow> fd_lookup w 0 \<noteq> None \<and> fd_lookup w 1 = Some Tty_out \<and> fd_lookup w 2 = Some Tty_err"

definition staged :: "int \<Rightarrow> world \<Rightarrow> bool" where
  "staged out w \<longleftrightarrow> fd_lookup w out = Some (Tmp (length (tmp_data w)))"

text \<open>What one tick of \<^verbatim>\<open>file_iterate\<close> captures, as a function of the tick alone: the first
  \<^verbatim>\<open>BUFFERSIZE\<close> bytes of the file (nothing when it is absent); and the record the tick adds to the
  sink: payload, time line, separator, or nothing when the guard of \<^verbatim>\<open>result\<close> refuses.\<close>

definition capture_file :: "string \<Rightarrow> tick \<Rightarrow> string" where
  "capture_file name tk = take (nat BUFFERSIZE) (case t_fs tk name of None \<Rightarrow> [] | Some c \<Rightarrow> c)"

definition snapshot_file :: "string \<Rightarrow> tick \<Rightarrow> string" where
  "snapshot_file name tk =
     (let p = capture_file name tk
      in if BUFFERSIZE - int (length p) > 40 then p @ time_line (t_now tk) @ separator else [])"

text \<open>What the tick adds to the standard error and what it leaves in \<^verbatim>\<open>errno\<close>, given \<^verbatim>\<open>errno\<close>
  before it (descriptor 2 being the standard error).\<close>

definition errno_timer :: "tick \<Rightarrow> errcode \<Rightarrow> errcode" where
  "errno_timer tk e = (if t_ret tk < 0 then t_errno tk else e)"

definition errno_file :: "string \<Rightarrow> tick \<Rightarrow> errcode \<Rightarrow> errcode" where
  "errno_file name tk e = (if t_fs tk name = None then EBADF else errno_timer tk e)"

definition timer_warning :: "tick \<Rightarrow> errcode \<Rightarrow> string" where
  "timer_warning tk e =
     (if t_ret tk \<noteq> 8 then ''reading timer: '' @ strerror (errno_timer tk e) @ [CHR 0x0A] else [])"

definition diagnostics_file :: "string \<Rightarrow> tick \<Rightarrow> errcode \<Rightarrow> string" where
  "diagnostics_file name tk e =
     timer_warning tk e
     @ (if BUFFERSIZE - int (length (capture_file name tk)) > 40 then []
        else ''Buffer Overrun'' @ [CHR 0x0A, CHR 0x00])
     @ (if capture_file name tk = [] then ''reading file: '' @ strerror (errno_file name tk e) @ [CHR 0x0A]
        else [])"

text \<open>The ticks a loop \<^verbatim>\<open>do { ctr += fired; ... } while (ctr < n)\<close> goes through when it starts with
  \<^verbatim>\<open>ctr = c\<close>: \<open>None\<close> when the ticks run out before it leaves.\<close>

fun consumed :: "int \<Rightarrow> int \<Rightarrow> tick list \<Rightarrow> tick list option" where
  "consumed n c [] = None"
| "consumed n c (tk # tks) =
     (if int32 (c + t_fired tk) < n then map_option ((#) tk) (consumed n (int32 (c + t_fired tk)) tks)
      else Some [tk])"

text \<open>What a run of \<^verbatim>\<open>file_iterate\<close> hands to the standard output, and how it ends, as a function of
  the options, of the files at start and of the ticks: the usage text when no file is named,
  nothing when the first \<^verbatim>\<open>read_once\<close> finds no byte, otherwise the records of the ticks the loop
  goes through, in their order. The option \<^verbatim>\<open>-b\<close> has no part in it.\<close>

definition output_file :: "args \<Rightarrow> (string \<Rightarrow> string option) \<Rightarrow> tick list \<Rightarrow> (status \<times> string) option" where
  "output_file a files tks =
     (case a_filename a of
        None \<Rightarrow> Some (Exit (- 1), usage_file)
      | Some name \<Rightarrow>
          if take (nat BUFFERSIZE) (case files name of None \<Rightarrow> [] | Some c \<Rightarrow> c) = []
          then Some (Exit (- 1), [])
          else map_option (\<lambda>used. (Return 0, concat (map (snapshot_file name) used)))
                 (consumed (a_count a) 0 tks))"




text \<open>
  The state of the stations between \<^verbatim>\<open>stations_reset\<close> and \<^verbatim>\<open>stations_read\<close>. \<open>reopened w h path\<close>: the
  handle \<open>h\<close> is what \<^verbatim>\<open>open(path, O_RDONLY)\<close> has just returned in \<open>w\<close>: \<open>-1\<close> when the file is absent,
  otherwise a positive descriptor open on \<open>path\<close> at offset 0. \<open>fresh w s\<close>: both handles of the
  station are so. \<open>owns s\<close>: the positive handles of a station. \<open>separate n S\<close>: no positive handle is
  held twice among the first \<open>n\<close> stations.
\<close>

definition reopened :: "world \<Rightarrow> int \<Rightarrow> string \<Rightarrow> bool" where
  "reopened w h path \<longleftrightarrow>
     (if fs w path = None then h = - 1 else h > 0 \<and> fd_lookup w h = Some (Rd path 0))"

definition fresh :: "world \<Rightarrow> station_stats \<Rightarrow> bool" where
  "fresh w s \<longleftrightarrow> reopened w (rc_stats s) (rc_stats_file s) \<and> reopened w (airtime s) (airtime_file s)"

definition owns :: "station_stats \<Rightarrow> int set" where
  "owns s = {h. h > 0 \<and> (h = rc_stats s \<or> h = airtime s)}"

definition separate :: "nat \<Rightarrow> stations \<Rightarrow> bool" where
  "separate n S \<longleftrightarrow>
     (\<forall>i<n. rc_stats (S i) > 0 \<longrightarrow> rc_stats (S i) \<noteq> airtime (S i))
     \<and> (\<forall>i<n. \<forall>j<n. i \<noteq> j \<longrightarrow> owns (S i) \<inter> owns (S j) = {})"

text \<open>What one station adds to the payload of a tick, from the files as they stand: its label
  line and, for each of the two streams whose file is there, the stream's label line and the
  bytes one \<^verbatim>\<open>read\<close> of 8192 returns from its start. Nothing is put behind these bytes.\<close>

definition stream_text :: "world \<Rightarrow> string \<Rightarrow> string \<Rightarrow> string" where
  "stream_text w label path = (case fs w path of None \<Rightarrow> [] | Some c \<Rightarrow> label @ take 8192 c)"

definition station_block :: "world \<Rightarrow> station_stats \<Rightarrow> string" where
  "station_block w s =
     ''Station: '' @ macaddr s @ [CHR 0x0A]
     @ stream_text w (''Airtime:'' @ [CHR 0x0A]) (airtime_file s)
     @ stream_text w (''RC stats:'' @ [CHR 0x0A]) (rc_stats_file s)"

text \<open>\<open>tidy n S w\<close>: the stations as a tick finds them. Descriptor 0 is in use, no positive handle
  is held twice among the first \<open>n\<close> stations, and every positive handle is an open descriptor.\<close>

definition tidy :: "nat \<Rightarrow> stations \<Rightarrow> world \<Rightarrow> bool" where
  "tidy n S w \<longleftrightarrow>
     fd_lookup w 0 \<noteq> None \<and> separate n S \<and> (\<forall>i<n. \<forall>h\<in>owns (S i). fd_lookup w h \<noteq> None)"

section \<open>Buffers and formatted text\<close>

lemma load_store_below: "k \<le> n \<Longrightarrow> load (store b n s) k = load b k"
  by (simp add: load_def store_def)

lemma load_store_append: "load (store b n s) (n + length s) = load b n @ s"
proof -
  have "[0..<n + length s] = [0..<n] @ [n..<n + length s]"
    by (rule upt_add_eq_append) simp
  moreover have "map (store b n s) [0..<n] = map b [0..<n]"
    by (simp add: store_def)
  moreover have "map (store b n s) [n..<n + length s] = s"
    by (rule nth_equalityI) (simp_all add: store_def)
  ultimately show ?thesis
    by (simp add: load_def)
qed

lemma load_store_zero: "load (store b 0 s) (length s) = s"
  using load_store_append [of b 0 s] by (simp add: load_def)

lemma load_sprintf_below: "k \<le> n + length s \<Longrightarrow> load (sprintf b n s) k = load (store b n s) k"
  by (auto simp add: load_def store_def sprintf_def nth_append)

lemma load_sprintf_append: "load (sprintf b n s) (n + length s) = load b n @ s"
  by (simp add: load_sprintf_below load_store_append)

lemma length_dec: "0 < k \<Longrightarrow> n < 10 ^ k \<Longrightarrow> length (dec n) \<le> k"
proof (induction n arbitrary: k rule: dec.induct)
  case (1 n)
  show ?case
  proof (cases "n < 10")
    case True
    with "1.prems" show ?thesis by (simp add: dec.simps)
  next
    case False
    with "1.prems" obtain j where k: "k = Suc j" and j: "0 < j"
      by (cases k; cases "k - 1") auto
    from "1.prems" k have "n div 10 < 10 ^ j"
      by (simp add: less_mult_imp_div_less mult.commute)
    with "1.IH" [OF False j] have "length (dec (n div 10)) \<le> j" .
    with False k show ?thesis by (subst dec.simps) simp
  qed
qed

lemma length_fmt_09ld: "0 \<le> n \<Longrightarrow> n < 10 ^ 9 \<Longrightarrow> length (fmt_09ld n) = 9"
proof -
  assume a: "0 \<le> n" "n < 10 ^ 9"
  then have "nat n < 10 ^ 9" by (simp add: nat_less_iff)
  then have "length (dec (nat n)) \<le> 9" by (rule length_dec [rotated]) simp
  with a show ?thesis by (simp add: fmt_09ld_def)
qed





section \<open>System calls on known descriptors\<close>

lemma result_emits:
  "0 \<le> sz \<Longrightarrow> bufsize - sz > 40 \<Longrightarrow>
   snd (result out sz bufsize buffer now w)
     = snd (sys_write out (load buffer (nat sz) @ time_line now @ separator) w)"
proof -
  assume a: "0 \<le> sz" "bufsize - sz > 40"
  let ?line = "time_line now @ separator"
  have "nat (sz + int (length ?line)) = nat sz + length ?line"
    using a(1) by (simp add: nat_add_distrib)
  then have "load (sprintf buffer (nat sz) ?line) (nat (sz + int (length ?line)))
          = load buffer (nat sz) @ ?line"
    by (simp only: load_sprintf_append)
  with a(2) show ?thesis
    by (simp add: result_def Let_def)
qed

lemma result_overrun:
  "\<not> bufsize - sz > 40 \<Longrightarrow>
   result out sz bufsize buffer now w
     = (buffer, snd (sys_write 2 (''Buffer Overrun'' @ [CHR 0x0A, CHR 0x00]) w))"
  by (simp add: result_def)

lemma sys_write_tty_out:
  "fd_lookup w fd = Some Tty_out \<Longrightarrow> sys_write fd s w = (int (length s), w\<lparr>stdout := stdout w @ s\<rparr>)"
  by (simp add: sys_write_def)

lemma sys_write_tty_err:
  "fd_lookup w fd = Some Tty_err \<Longrightarrow> sys_write fd s w = (int (length s), w\<lparr>stderr := stderr w @ s\<rparr>)"
  by (simp add: sys_write_def)

lemma overwrite_end: "overwrite (length old) s old = old @ s"
  by (simp add: overwrite_def)

lemma sys_write_tmp:
  "fd_lookup w fd = Some (Tmp pos) \<Longrightarrow>
   sys_write fd s w = (int (length s),
     fd_set fd (Tmp (pos + length s)) (w\<lparr>tmp_data := overwrite pos s (tmp_data w)\<rparr>))"
  by (simp add: sys_write_def)

lemma fd_lookup_boot:
  "fd_lookup (boot f l) 0 = Some Tty_in" "fd_lookup (boot f l) 1 = Some Tty_out"
  "fd_lookup (boot f l) 2 = Some Tty_err"
  by (simp_all add: fd_lookup_def boot_def)

lemma replicate_numeral: "replicate (numeral k) x = x # replicate (pred_numeral k) x"
  by (simp add: numeral_eq_Suc)

lemmas fmt_eval = time_line_def separator_def fmt_ld_def fmt_09ld_def dec.simps digit_def
  replicate_numeral

lemma load_eval: "load (store b 0 s) n = (if n \<le> length s then take n s else s @ map b [length s..<n])"
proof (cases "n \<le> length s")
  case True
  then have "load (store b 0 s) n = map ((!) s) [0..<n]"
    by (simp add: load_def store_def)
  also have "\<dots> = take n s"
    using True by (intro nth_equalityI) simp_all
  finally show ?thesis using True by simp
next
  case False
  then have "[0..<n] = [0..<length s] @ [length s..<n]"
    using upt_add_eq_append [of 0 "length s" "n - length s"] by simp
  moreover have "map (store b 0 s) [0..<length s] = s"
    by (rule nth_equalityI) (simp_all add: store_def)
  moreover have "map (store b 0 s) [length s..<n] = map b [length s..<n]"
    by (simp add: store_def)
  ultimately show ?thesis using False by (simp add: load_def)
qed

section \<open>The descriptor table\<close>

lemma lowest_free_le: "lowest_free tab \<le> length tab"
  by (simp add: lowest_free_def length_takeWhile_le)

lemma lowest_free_None: "lowest_free tab < length tab \<Longrightarrow> tab ! lowest_free tab = None"
  unfolding lowest_free_def using nth_length_takeWhile [of "\<lambda>e. e \<noteq> None" tab] by simp

lemma lowest_free_Some: "i < lowest_free tab \<Longrightarrow> tab ! i \<noteq> None"
  unfolding lowest_free_def using takeWhile_nth [of i "\<lambda>e. e \<noteq> None" tab]
    nth_mem [of i "takeWhile (\<lambda>e. e \<noteq> None) tab"] set_takeWhileD [of "tab ! i" "\<lambda>e. e \<noteq> None" tab]
  by auto

lemma keeps_refl: "keeps w w"
  by (simp add: keeps_def)

lemma keeps_trans: "keeps w w1 \<Longrightarrow> keeps w1 w2 \<Longrightarrow> keeps w w2"
  by (auto simp: keeps_def)

lemma fd_lookup_free: "fd_lookup w (int (lowest_free (fdtab w))) = None"
  using lowest_free_None [of "fdtab w"] by (auto simp: fd_lookup_def)

lemma fd_install_new:
  "fd_install d w = (fd, w') \<Longrightarrow> fd = int (lowest_free (fdtab w)) \<and> fd_lookup w' fd = Some d \<and> fd_lookup w fd = None"
  using lowest_free_le [of "fdtab w"] lowest_free_None [of "fdtab w"]
  by (auto simp: fd_install_def Let_def fd_lookup_def nth_append)

lemma fd_install_other:
  "fd_install d w = (fd, w') \<Longrightarrow> fd' \<noteq> fd \<Longrightarrow> fd_lookup w' fd' = fd_lookup w fd'"
  using lowest_free_le [of "fdtab w"]
  by (auto simp: fd_install_def Let_def fd_lookup_def nth_append nat_eq_iff split: if_splits)


lemma fd_install_fields:
  "fd_install d w = (fd, w') \<Longrightarrow> w' = w\<lparr>fdtab := fdtab w'\<rparr>"
  by (auto simp: fd_install_def Let_def)

lemma fd_lookup_cong: "fdtab w' = fdtab w \<Longrightarrow> fd_lookup w' fd = fd_lookup w fd"
  by (simp add: fd_lookup_def)

lemma fd_set_lookup:
  "fd_lookup w fd \<noteq> None \<Longrightarrow> fd_lookup (fd_set fd d w) fd' = (if fd' = fd then Some d else fd_lookup w fd')"
  by (auto simp: fd_lookup_def fd_set_def nat_eq_iff split: if_splits)

lemma sys_read_Rd:
  "fd_lookup w fd = Some (Rd p pos) \<Longrightarrow>
   sys_read fd n w = (int (length (take n (drop pos (content w p)))), take n (drop pos (content w p)),
                      fd_set fd (Rd p (pos + length (take n (drop pos (content w p))))) w)"
  by (simp add: sys_read_def Let_def)


lemma sys_read_bad: "fd_lookup w fd = None \<Longrightarrow> sys_read fd n w = (- 1, [], w\<lparr>errno := EBADF\<rparr>)"
  by (simp add: sys_read_def)

lemma content_fd_set [simp]: "content (fd_set fd d w) p = content w p"
  by (simp add: content_def fd_set_def)

lemma read_loop_file:
  assumes "fd_lookup w fp = Some (Rd p 0)" and "0 < bufsize"
  shows "\<exists>tab. read_loop fp bufsize 0 buffer w
           = (int (length (take (nat bufsize) (content w p))),
              (if content w p = [] then buffer else store buffer 0 (take (nat bufsize) (content w p))),
              w\<lparr>fdtab := tab\<rparr>)
         \<and> (\<forall>fd'. fd' \<noteq> fp \<longrightarrow> fd_lookup (w\<lparr>fdtab := tab\<rparr>) fd' = fd_lookup w fd')"
proof -
  define c where "c = content w p"
  define d where "d = take (nat bufsize) c"
  define w1 where "w1 = fd_set fp (Rd p (length d)) w"
  define n2 where "n2 = nat (bufsize - int (length d))"
  define w2 where "w2 = fd_set fp (Rd p (length d)) w1"
  have r1: "sys_read fp (nat bufsize) w = (int (length d), d, w1)"
    using sys_read_Rd [OF assms(1), of "nat bufsize"] by (simp add: c_def d_def w1_def)
  have l1: "fd_lookup w1 fp = Some (Rd p (length d))"
    using assms(1) by (simp add: fd_set_lookup w1_def)
  have c1: "content w1 p = c"
    by (simp add: w1_def c_def)
  have f1: "w1 = w\<lparr>fdtab := fdtab w1\<rparr>" "w2 = w\<lparr>fdtab := fdtab w2\<rparr>"
    by (simp_all add: w1_def w2_def fd_set_def)
  have k1: "\<forall>fd'. fd' \<noteq> fp \<longrightarrow> fd_lookup w1 fd' = fd_lookup w fd'"
    using assms(1) by (simp add: fd_set_lookup w1_def)
  have k2: "\<forall>fd'. fd' \<noteq> fp \<longrightarrow> fd_lookup w2 fd' = fd_lookup w fd'"
    using l1 k1 by (simp add: fd_set_lookup w2_def)
  show ?thesis
  proof (cases "c = []")
    case True
    then have "d = []" by (simp add: d_def)
    with r1 have "read_loop fp bufsize 0 buffer w = (0, buffer, w1)"
      by (subst read_loop.simps) simp
    with True \<open>d = []\<close> f1(1) k1 show ?thesis
      unfolding c_def [symmetric] d_def [symmetric]
      by (intro exI [of _ "fdtab w1"]) simp
  next
    case False
    with assms(2) have pos: "0 < int (length d)" by (simp add: d_def)
    have "take n2 (drop (length d) c) = []"
    proof (cases "length c \<le> nat bufsize")
      case True then show ?thesis by (simp add: d_def)
    next
      case False
      then have "length d = nat bufsize" by (simp add: d_def)
      with assms(2) have "n2 = 0" by (simp add: n2_def)
      then show ?thesis by simp
    qed
    with sys_read_Rd [OF l1, of n2] c1 have r2: "sys_read fp n2 w1 = (0, [], w2)"
      by (simp add: w2_def)
    have "read_loop fp bufsize (0 + int (length d)) (store buffer 0 d) w1
            = (0 + int (length d), store buffer 0 d, w2)"
      using r2 by (subst read_loop.simps) (simp add: n2_def)
    with pos r1 have "read_loop fp bufsize 0 buffer w = (int (length d), store buffer 0 d, w2)"
      by (subst read_loop.simps) simp
    with False f1(2) k2 show ?thesis
      unfolding c_def [symmetric] d_def [symmetric]
      by (intro exI [of _ "fdtab w2"]) simp
  qed
qed

lemma fd_lookup_upd [simp]:
  "fd_lookup (w\<lparr>fs := a1\<rparr>) = fd_lookup w"
  "fd_lookup (w\<lparr>dirs := a2\<rparr>) = fd_lookup w"
  "fd_lookup (w\<lparr>tmp_link := a3\<rparr>) = fd_lookup w"
  "fd_lookup (w\<lparr>tmp_data := a4\<rparr>) = fd_lookup w"
  "fd_lookup (w\<lparr>stdout := a5\<rparr>) = fd_lookup w"
  "fd_lookup (w\<lparr>stderr := a5\<rparr>) = fd_lookup w"
  "fd_lookup (w\<lparr>child_in := a5\<rparr>) = fd_lookup w"
  "fd_lookup (w\<lparr>child_out := a5\<rparr>) = fd_lookup w"
  "fd_lookup (w\<lparr>armed := a6\<rparr>) = fd_lookup w"
  "fd_lookup (w\<lparr>errno := a7\<rparr>) = fd_lookup w"
  by (simp_all add: fd_lookup_def fun_eq_iff)

lemma perror_std:
  "fd_lookup w 2 = Some Tty_err \<Longrightarrow>
   perror msg w = w\<lparr>stderr := stderr w @ msg @ '': '' @ strerror (errno w) @ [CHR 0x0A]\<rparr>"
  by (simp add: perror_def sys_write_tty_err)

lemma read_timer_std:
  assumes "fd_lookup w 2 = Some Tty_err"
  shows "read_timer tk w = w\<lparr>fs := t_fs tk, child_out := child_out w @ t_child tk,
            stderr := stderr w @ (if t_ret tk \<noteq> 8
               then ''reading timer: '' @ strerror (if t_ret tk < 0 then t_errno tk else errno w) @ [CHR 0x0A]
               else []),
            errno := (if t_ret tk < 0 then t_errno tk else errno w)\<rparr>"
  using assms by (simp add: read_timer_def Let_def perror_std)

lemma read_once_spec:
  assumes "fd_lookup w 0 \<noteq> None" and "0 < bufsize"
  shows "\<exists>b' tab. read_once name buffer bufsize w
           = (int (length (take (nat bufsize) (content w name))), b',
              w\<lparr>fdtab := tab, errno := (if fs w name = None then EBADF else errno w)\<rparr>)
         \<and> load b' (length (take (nat bufsize) (content w name))) = take (nat bufsize) (content w name)
         \<and> keeps w (w\<lparr>fdtab := tab\<rparr>)"
proof (cases "fs w name")
  case None
  have "fd_lookup (w\<lparr>errno := ENOENT\<rparr>) (- 1) = None"
    by (simp add: fd_lookup_def)
  then have "read_loop (- 1) bufsize 0 buffer (w\<lparr>errno := ENOENT\<rparr>) = (0, buffer, w\<lparr>errno := EBADF\<rparr>)"
    by (subst read_loop.simps) (simp add: sys_read_bad)
  with None have "read_once name buffer bufsize w = (0, buffer, w\<lparr>fdtab := fdtab w, errno := EBADF\<rparr>)"
    by (simp add: read_once_def sys_open_def)
  with None show ?thesis
    by (intro exI [of _ buffer] exI [of _ "fdtab w"]) (simp add: content_def load_def keeps_refl)
next
  case (Some c)
  obtain fp w1 where inst: "fd_install (Rd name 0) w = (fp, w1)"
    by (cases "fd_install (Rd name 0) w")
  note new = fd_install_new [OF inst]
  have nz: "fp \<noteq> 0"
  proof
    assume "fp = 0"
    with new have "fd_lookup w 0 = None" by simp
    with assms(1) show False by simp
  qed
  have w1: "w1 = w\<lparr>fdtab := fdtab w1\<rparr>"
    by (rule fd_install_fields [OF inst])
  then have c1: "content w1 name = content w name"
    by (metis content_def world.select_convs(1) world.surjective world.update_convs(5))
  from read_loop_file [of w1 fp name bufsize buffer] new assms(2)
  obtain tab where rl: "read_loop fp bufsize 0 buffer w1
           = (int (length (take (nat bufsize) (content w1 name))),
              (if content w1 name = [] then buffer else store buffer 0 (take (nat bufsize) (content w1 name))),
              w1\<lparr>fdtab := tab\<rparr>)"
     and oth: "\<forall>fd'. fd' \<noteq> fp \<longrightarrow> fd_lookup (w1\<lparr>fdtab := tab\<rparr>) fd' = fd_lookup w1 fd'"
    by blast
  have eq: "w1\<lparr>fdtab := tab\<rparr> = w\<lparr>fdtab := tab\<rparr>"
    by (subst w1) simp
  have "keeps w (w\<lparr>fdtab := tab\<rparr>)"
    unfolding keeps_def
  proof (intro allI impI)
    fix fd assume o: "fd_lookup w fd \<noteq> None"
    with new have "fd \<noteq> fp" by auto
    with oth eq fd_install_other [OF inst] show "fd_lookup (w\<lparr>fdtab := tab\<rparr>) fd = fd_lookup w fd"
      by simp
  qed
  moreover have "read_once name buffer bufsize w
           = (int (length (take (nat bufsize) (content w name))),
              (if content w name = [] then buffer else store buffer 0 (take (nat bufsize) (content w name))),
              w\<lparr>fdtab := tab, errno := errno w\<rparr>)"
    using Some inst nz rl eq c1 by (simp add: read_once_def sys_open_def)
  moreover have "load (if content w name = [] then buffer else store buffer 0 (take (nat bufsize) (content w name)))
       (length (take (nat bufsize) (content w name))) = take (nat bufsize) (content w name)"
    using load_store_zero [of buffer "take (nat bufsize) (content w name)"] by (simp add: load_def)
  ultimately show ?thesis using Some
    by (intro exI [of _ "if content w name = [] then buffer else store buffer 0 (take (nat bufsize) (content w name))"]
          exI [of _ tab]) simp
qed

section \<open>One iteration of file\_iterate\<close>

lemma keeps_lookup: "keeps w w' \<Longrightarrow> fd_lookup w fd = Some d \<Longrightarrow> fd_lookup w' fd = Some d"
  by (simp add: keeps_def)

lemma keeps_upd:
  "keeps w (w'\<lparr>fs := a1\<rparr>) = keeps w w'"
  "keeps w (w'\<lparr>stdout := a5\<rparr>) = keeps w w'"
  "keeps w (w'\<lparr>stderr := a5\<rparr>) = keeps w w'"
  "keeps w (w'\<lparr>child_out := a5\<rparr>) = keeps w w'"
  "keeps w (w'\<lparr>tmp_data := a5\<rparr>) = keeps w w'"
  "keeps w (w'\<lparr>errno := a7\<rparr>) = keeps w w'"
  "keeps (w\<lparr>fs := a1\<rparr>) w' = keeps w w'"
  "keeps (w\<lparr>stdout := a5\<rparr>) w' = keeps w w'"
  "keeps (w\<lparr>stderr := a5\<rparr>) w' = keeps w w'"
  "keeps (w\<lparr>child_out := a5\<rparr>) w' = keeps w w'"
  "keeps (w\<lparr>tmp_data := a5\<rparr>) w' = keeps w w'"
  "keeps (w\<lparr>errno := a7\<rparr>) w' = keeps w w'"
  by (simp_all add: keeps_def)

lemma keeps_cong: "fdtab a = fdtab a' \<Longrightarrow> fdtab b = fdtab b' \<Longrightarrow> keeps a b = keeps a' b'"
  by (simp add: keeps_def fd_lookup_def)

lemma tick_file_beta:
  "tick_file name out tk (c, b, w) =
     (let r = read_once name b BUFFERSIZE (read_timer tk w);
          q = result out (if fst r > 0 then fst r else 0) BUFFERSIZE (fst (snd r)) (t_now tk) (snd (snd r))
      in (int32 (c + t_fired tk), fst q,
          if fst r > 0 then snd q else perror ''reading file'' (snd q)))"
  by (simp add: Let_def case_prod_beta)

declare tick_file.simps [simp del]

lemma tick_file_ctr: "fst (tick_file name out tk (c, b, w)) = int32 (c + t_fired tk)"
  by (simp add: tick_file_beta Let_def)

lemma BUFFERSIZE_pos: "0 < BUFFERSIZE"
  by (simp add: BUFFERSIZE_def)

lemma tick_file_world:
  assumes "std w"
  obtains tab where "snd (snd (tick_file name out tk (c, b, w)))
           = (let w2 = w\<lparr>fs := t_fs tk, child_out := child_out w @ t_child tk,
                         stderr := stderr w @ timer_warning tk (errno w),
                         fdtab := tab, errno := errno_file name tk (errno w)\<rparr>;
                  w3 = (if BUFFERSIZE - int (length (capture_file name tk)) > 40
                        then snd (sys_write out (snapshot_file name tk) w2)
                        else snd (sys_write 2 (''Buffer Overrun'' @ [CHR 0x0A, CHR 0x00]) w2))
              in if capture_file name tk = [] then perror ''reading file'' w3 else w3)"
    and "keeps w (w\<lparr>fdtab := tab\<rparr>)"
proof -
  define w1 where "w1 = read_timer tk w"
  define p where "p = capture_file name tk"
  from assms have e2: "fd_lookup w 2 = Some Tty_err" and e0: "fd_lookup w 0 \<noteq> None"
    by (simp_all add: std_def)
  have w1: "w1 = w\<lparr>fs := t_fs tk, child_out := child_out w @ t_child tk,
            stderr := stderr w @ timer_warning tk (errno w),
            errno := errno_timer tk (errno w)\<rparr>"
    unfolding w1_def read_timer_std [OF e2] by (simp add: timer_warning_def errno_timer_def)
  have cw1: "take (nat BUFFERSIZE) (content w1 name) = p"
    by (simp add: w1 content_def p_def capture_file_def)
  have "fd_lookup w1 0 \<noteq> None"
    using e0 by (simp add: w1)
  from read_once_spec [OF this BUFFERSIZE_pos, of name b]
  obtain b1 tab where ro: "read_once name b BUFFERSIZE w1
           = (int (length p), b1, w1\<lparr>fdtab := tab, errno := (if fs w1 name = None then EBADF else errno w1)\<rparr>)"
     and ld: "load b1 (length p) = p" and kp: "keeps w1 (w1\<lparr>fdtab := tab\<rparr>)"
    unfolding cw1 by blast
  define w2 where "w2 = w\<lparr>fs := t_fs tk, child_out := child_out w @ t_child tk,
                         stderr := stderr w @ timer_warning tk (errno w),
                         fdtab := tab, errno := errno_file name tk (errno w)\<rparr>"
  have w2: "w1\<lparr>fdtab := tab, errno := (if fs w1 name = None then EBADF else errno w1)\<rparr> = w2"
    by (simp add: w1 w2_def errno_file_def)
  have k: "keeps w (w\<lparr>fdtab := tab\<rparr>)"
    using kp keeps_cong [of w1 w "w1\<lparr>fdtab := tab\<rparr>" "w\<lparr>fdtab := tab\<rparr>"] by (simp add: w1)
  have snap: "snapshot_file name tk =
      (if BUFFERSIZE - int (length p) > 40 then p @ time_line (t_now tk) @ separator else [])"
    by (simp add: snapshot_file_def p_def Let_def)
  have "snd (snd (tick_file name out tk (c, b, w)))
           = (let w3 = (if BUFFERSIZE - int (length p) > 40
                        then snd (sys_write out (snapshot_file name tk) w2)
                        else snd (sys_write 2 (''Buffer Overrun'' @ [CHR 0x0A, CHR 0x00]) w2))
              in if p = [] then perror ''reading file'' w3 else w3)"
  proof (cases "p = []")
    case True
    then have "snd (result out 0 BUFFERSIZE b1 (t_now tk) w2)
                 = snd (sys_write out (snapshot_file name tk) w2)"
      using result_emits [of 0 BUFFERSIZE out b1 "t_now tk" w2]
      by (simp add: snap BUFFERSIZE_def load_def)
    with True show ?thesis
      unfolding tick_file_beta w1_def [symmetric] ro w2
      by (simp add: Let_def BUFFERSIZE_def)
  next
    case False
    then have pos: "0 < int (length p)" by simp
    show ?thesis
    proof (cases "BUFFERSIZE - int (length p) > 40")
      case True
      then have "snd (result out (int (length p)) BUFFERSIZE b1 (t_now tk) w2)
                 = snd (sys_write out (snapshot_file name tk) w2)"
        using result_emits [of "int (length p)" BUFFERSIZE out b1 "t_now tk" w2]
        by (simp add: snap ld)
      with True False pos show ?thesis
        unfolding tick_file_beta w1_def [symmetric] ro w2
        by (simp add: Let_def)
    next
      case g: False
      with False pos show ?thesis
        unfolding tick_file_beta w1_def [symmetric] ro w2
        by (simp add: Let_def result_overrun)
    qed
  qed
  then show thesis
    unfolding p_def w2_def by (intro that [OF _ k]) (simp add: Let_def)
qed

lemma tick_file_direct:
  assumes "std w" and "fd_lookup w out = Some Tty_out"
  obtains b' w' where "tick_file name out tk (c, b, w) = (int32 (c + t_fired tk), b', w')"
    and "keeps w w'" and "stdout w' = stdout w @ snapshot_file name tk"
    and "stderr w' = stderr w @ diagnostics_file name tk (errno w)"
    and "errno w' = errno_file name tk (errno w)"
    and "tmp_data w' = tmp_data w" and "tmp_link w' = tmp_link w"
proof -
  obtain tab where tw: "snd (snd (tick_file name out tk (c, b, w)))
           = (let w2 = w\<lparr>fs := t_fs tk, child_out := child_out w @ t_child tk,
                         stderr := stderr w @ timer_warning tk (errno w),
                         fdtab := tab, errno := errno_file name tk (errno w)\<rparr>;
                  w3 = (if BUFFERSIZE - int (length (capture_file name tk)) > 40
                        then snd (sys_write out (snapshot_file name tk) w2)
                        else snd (sys_write 2 (''Buffer Overrun'' @ [CHR 0x0A, CHR 0x00]) w2))
              in if capture_file name tk = [] then perror ''reading file'' w3 else w3)"
    and k: "keeps w (w\<lparr>fdtab := tab\<rparr>)"
    by (rule tick_file_world [OF assms(1)])
  define w2 where "w2 = w\<lparr>fs := t_fs tk, child_out := child_out w @ t_child tk,
                         stderr := stderr w @ timer_warning tk (errno w),
                         fdtab := tab, errno := errno_file name tk (errno w)\<rparr>"
  have k2: "keeps w w2"
    using k keeps_cong [of w w w2 "w\<lparr>fdtab := tab\<rparr>"] by (simp add: w2_def)
  from assms have "fd_lookup w 2 = Some Tty_err"
    by (simp add: std_def)
  then have l2: "fd_lookup w2 2 = Some Tty_err"
    by (rule keeps_lookup [OF k2])
  have lo: "fd_lookup w2 out = Some Tty_out"
    using assms(2) by (rule keeps_lookup [OF k2])
  define w' where "w' = snd (snd (tick_file name out tk (c, b, w)))"
  have guard_empty: "capture_file name tk = [] \<Longrightarrow> BUFFERSIZE - int (length (capture_file name tk)) > 40"
    by (simp add: BUFFERSIZE_def)
  have snap: "\<not> BUFFERSIZE - int (length (capture_file name tk)) > 40 \<Longrightarrow> snapshot_file name tk = []"
    by (simp add: snapshot_file_def Let_def)
  have f2: "stdout w2 = stdout w" "stderr w2 = stderr w @ timer_warning tk (errno w)"
    "errno w2 = errno_file name tk (errno w)"
    by (simp_all add: w2_def)
  have w': "w' = w2\<lparr>stdout := stdout w @ snapshot_file name tk,
                    stderr := stderr w @ diagnostics_file name tk (errno w)\<rparr>"
  proof (cases "capture_file name tk = []")
    case True
    with guard_empty have g: "BUFFERSIZE - int (length (capture_file name tk)) > 40" by simp
    have "w' = perror ''reading file'' (snd (sys_write out (snapshot_file name tk) w2))"
      unfolding w'_def tw w2_def [symmetric] Let_def using True g by simp
    also have "\<dots> = perror ''reading file'' (w2\<lparr>stdout := stdout w2 @ snapshot_file name tk\<rparr>)"
      by (simp add: sys_write_tty_out [OF lo])
    also have "\<dots> = w2\<lparr>stdout := stdout w @ snapshot_file name tk,
                    stderr := stderr w @ diagnostics_file name tk (errno w)\<rparr>"
      using True g l2 by (subst perror_std) (simp_all add: f2 diagnostics_file_def)
    finally show ?thesis .
  next
    case False
    show ?thesis
    proof (cases "BUFFERSIZE - int (length (capture_file name tk)) > 40")
      case True
      have "w' = snd (sys_write out (snapshot_file name tk) w2)"
        unfolding w'_def tw w2_def [symmetric] Let_def using True False by simp
      also have "\<dots> = w2\<lparr>stdout := stdout w2 @ snapshot_file name tk\<rparr>"
        by (simp add: sys_write_tty_out [OF lo])
      also have "\<dots> = w2\<lparr>stdout := stdout w @ snapshot_file name tk,
                    stderr := stderr w @ diagnostics_file name tk (errno w)\<rparr>"
        using True False by (simp add: f2 diagnostics_file_def)
      finally show ?thesis .
    next
      case g: False
      have "w' = snd (sys_write 2 (''Buffer Overrun'' @ [CHR 0x0A, CHR 0x00]) w2)"
        unfolding w'_def tw w2_def [symmetric] Let_def using g False by simp
      also have "\<dots> = w2\<lparr>stderr := stderr w2 @ ''Buffer Overrun'' @ [CHR 0x0A, CHR 0x00]\<rparr>"
        by (simp add: sys_write_tty_err [OF l2])
      also have "\<dots> = w2\<lparr>stdout := stdout w @ snapshot_file name tk,
                    stderr := stderr w @ diagnostics_file name tk (errno w)\<rparr>"
        using g False snap [OF g] by (simp add: f2 diagnostics_file_def)
      finally show ?thesis .
    qed
  qed
  have "tick_file name out tk (c, b, w) = (int32 (c + t_fired tk), fst (snd (tick_file name out tk (c, b, w))), w')"
    using tick_file_ctr [of name out tk c b w]
    by (simp add: w'_def prod_eq_iff)
  moreover have "keeps w w'"
    using k2 keeps_cong [of w w w' w2] by (simp add: w')
  ultimately show thesis
    by (rule that) (simp_all add: w' w2_def)
qed


lemma fd_set_fields [simp]:
  "fs (fd_set fd d w) = fs w" "dirs (fd_set fd d w) = dirs w"
  "tmp_link (fd_set fd d w) = tmp_link w" "tmp_data (fd_set fd d w) = tmp_data w"
  "stdout (fd_set fd d w) = stdout w" "stderr (fd_set fd d w) = stderr w"
  "child_in (fd_set fd d w) = child_in w" "child_out (fd_set fd d w) = child_out w"
  "armed (fd_set fd d w) = armed w" "errno (fd_set fd d w) = errno w"
  by (simp_all add: fd_set_def)


lemma tick_file_staged:
  assumes "std w" and "staged out w"
  obtains b' w' where "tick_file name out tk (c, b, w) = (int32 (c + t_fired tk), b', w')"
    and "std w'" and "staged out w'"
    and "tmp_data w' = tmp_data w @ snapshot_file name tk" and "stdout w' = stdout w"
    and "stderr w' = stderr w @ diagnostics_file name tk (errno w)"
    and "errno w' = errno_file name tk (errno w)"
    and "tmp_link w' = tmp_link w"
proof -
  obtain tab where tw: "snd (snd (tick_file name out tk (c, b, w)))
           = (let w2 = w\<lparr>fs := t_fs tk, child_out := child_out w @ t_child tk,
                         stderr := stderr w @ timer_warning tk (errno w),
                         fdtab := tab, errno := errno_file name tk (errno w)\<rparr>;
                  w3 = (if BUFFERSIZE - int (length (capture_file name tk)) > 40
                        then snd (sys_write out (snapshot_file name tk) w2)
                        else snd (sys_write 2 (''Buffer Overrun'' @ [CHR 0x0A, CHR 0x00]) w2))
              in if capture_file name tk = [] then perror ''reading file'' w3 else w3)"
    and k: "keeps w (w\<lparr>fdtab := tab\<rparr>)"
    by (rule tick_file_world [OF assms(1)])
  define w2 where "w2 = w\<lparr>fs := t_fs tk, child_out := child_out w @ t_child tk,
                         stderr := stderr w @ timer_warning tk (errno w),
                         fdtab := tab, errno := errno_file name tk (errno w)\<rparr>"
  define s where "s = snapshot_file name tk"
  have k2: "keeps w w2"
    using k keeps_cong [of w w w2 "w\<lparr>fdtab := tab\<rparr>"] by (simp add: w2_def)
  from assms(1) have a2: "fd_lookup w 2 = Some Tty_err" and a1: "fd_lookup w 1 = Some Tty_out"
    by (simp_all add: std_def)
  have l2: "fd_lookup w2 2 = Some Tty_err"
    using a2 by (rule keeps_lookup [OF k2])
  have l1: "fd_lookup w2 1 = Some Tty_out"
    using a1 by (rule keeps_lookup [OF k2])
  from assms(1) obtain d0 where "fd_lookup w 0 = Some d0"
    by (auto simp: std_def)
  then have l0: "fd_lookup w2 0 = Some d0"
    by (rule keeps_lookup [OF k2])
  have f2: "stdout w2 = stdout w" "stderr w2 = stderr w @ timer_warning tk (errno w)"
    "errno w2 = errno_file name tk (errno w)" "tmp_data w2 = tmp_data w" "tmp_link w2 = tmp_link w"
    by (simp_all add: w2_def)
  from assms(2) have "fd_lookup w out = Some (Tmp (length (tmp_data w)))"
    by (simp add: staged_def)
  then have lo: "fd_lookup w2 out = Some (Tmp (length (tmp_data w)))"
    by (rule keeps_lookup [OF k2])
  from lo l1 l2 have ne: "out \<noteq> 1" "out \<noteq> 2" by auto
  define w3 where "w3 = fd_set out (Tmp (length (tmp_data w) + length s)) (w2\<lparr>tmp_data := tmp_data w @ s\<rparr>)"
  have wr: "snd (sys_write out s w2) = w3"
    by (simp add: sys_write_tmp [OF lo] w3_def f2 overwrite_end)
  have lo2: "fd_lookup (w2\<lparr>tmp_data := tmp_data w @ s\<rparr>) out \<noteq> None"
    using lo by simp
  have l3: "fd_lookup w3 2 = Some Tty_err" "fd_lookup w3 1 = Some Tty_out" "fd_lookup w3 0 \<noteq> None"
    "fd_lookup w3 out = Some (Tmp (length (tmp_data w @ s)))"
    unfolding w3_def fd_set_lookup [OF lo2] using l0 l1 l2 ne by simp_all
  have f3: "stdout w3 = stdout w" "stderr w3 = stderr w @ timer_warning tk (errno w)"
    "errno w3 = errno_file name tk (errno w)" "tmp_data w3 = tmp_data w @ s" "tmp_link w3 = tmp_link w"
    by (simp_all add: w3_def f2)
  define w' where "w' = snd (snd (tick_file name out tk (c, b, w)))"
  have guard_empty: "capture_file name tk = [] \<Longrightarrow> BUFFERSIZE - int (length (capture_file name tk)) > 40"
    by (simp add: BUFFERSIZE_def)
  have snap: "\<not> BUFFERSIZE - int (length (capture_file name tk)) > 40 \<Longrightarrow> s = []"
    by (simp add: s_def snapshot_file_def Let_def)
  have t: "tick_file name out tk (c, b, w) = (int32 (c + t_fired tk), fst (snd (tick_file name out tk (c, b, w))), w')"
    using tick_file_ctr [of name out tk c b w]
    by (simp add: w'_def prod_eq_iff)
  have "std w' \<and> staged out w' \<and> tmp_data w' = tmp_data w @ s \<and> stdout w' = stdout w
      \<and> stderr w' = stderr w @ diagnostics_file name tk (errno w)
      \<and> errno w' = errno_file name tk (errno w) \<and> tmp_link w' = tmp_link w"
  proof (cases "capture_file name tk = []")
    case True
    with guard_empty have g: "BUFFERSIZE - int (length (capture_file name tk)) > 40" by simp
    have "w' = perror ''reading file'' (snd (sys_write out s w2))"
      unfolding w'_def tw w2_def [symmetric] s_def Let_def using True g by simp
    then have "w' = w3\<lparr>stderr := stderr w3 @ ''reading file'' @ '': '' @ strerror (errno w3) @ [CHR 0x0A]\<rparr>"
      by (simp add: wr perror_std [OF l3(1)])
    with True g l3 show ?thesis
      by (simp add: std_def staged_def f3 diagnostics_file_def)
  next
    case False
    show ?thesis
    proof (cases "BUFFERSIZE - int (length (capture_file name tk)) > 40")
      case True
      have "w' = snd (sys_write out s w2)"
        unfolding w'_def tw w2_def [symmetric] s_def Let_def using True False by simp
      then have "w' = w3"
        by (simp add: wr)
      with True False l3 show ?thesis
        by (simp add: std_def staged_def f3 diagnostics_file_def)
    next
      case g: False
      have "w' = snd (sys_write 2 (''Buffer Overrun'' @ [CHR 0x0A, CHR 0x00]) w2)"
        unfolding w'_def tw w2_def [symmetric] Let_def using g False by simp
      then have "w' = w2\<lparr>stderr := stderr w2 @ ''Buffer Overrun'' @ [CHR 0x0A, CHR 0x00]\<rparr>"
        by (simp add: sys_write_tty_err [OF l2])
      with g False snap [OF g] l0 l1 l2 lo show ?thesis
        by (simp add: std_def staged_def f2 diagnostics_file_def)
    qed
  qed
  with t show thesis
    unfolding s_def by (intro that [of "fst (snd (tick_file name out tk (c, b, w)))" w']) simp_all
qed

section \<open>The sampling loop and the copy of the scratch file\<close>






lemma again_triple [simp]: "again a (c, b, w) = (c < a_count a)"
  by (simp add: again_def)



section \<open>A whole run of file\_iterate\<close>

lemma sys_close_fields [simp]:
  "fs (sys_close fd w) = fs w" "tmp_link (sys_close fd w) = tmp_link w"
  "tmp_data (sys_close fd w) = tmp_data w" "stdout (sys_close fd w) = stdout w"
  "stderr (sys_close fd w) = stderr w"
  by (simp_all add: sys_close_def split: option.splits)

lemma sys_unlink_fields [simp]:
  "tmp_data (sys_unlink p w) = tmp_data w" "stdout (sys_unlink p w) = stdout w"
  "stderr (sys_unlink p w) = stderr w" "fdtab (sys_unlink p w) = fdtab w"
  by (simp_all add: sys_unlink_def split: option.splits)

lemma timerfd_settime_fields [simp]:
  "fs (timerfd_settime p w) = fs w" "tmp_link (timerfd_settime p w) = tmp_link w"
  "tmp_data (timerfd_settime p w) = tmp_data w" "stdout (timerfd_settime p w) = stdout w"
  "stderr (timerfd_settime p w) = stderr w" "fdtab (timerfd_settime p w) = fdtab w"
  "errno (timerfd_settime p w) = errno w"
  by (simp_all add: timerfd_settime_def)

lemma staged_cong: "fdtab w' = fdtab w \<Longrightarrow> tmp_data w' = tmp_data w \<Longrightarrow> staged out w' = staged out w"
  by (simp add: staged_def fd_lookup_def)









lemma std_boot: "std (boot files listing)"
  by (simp add: std_def fd_lookup_boot)

lemma boot_fields [simp]: "stdout (boot files listing) = []" "fs (boot files listing) = files"
  "stderr (boot files listing) = []" "tmp_link (boot files listing) = None"
  by (simp_all add: boot_def)




lemma output_file_buffer [simp]: "output_file (a\<lparr>a_buffer := x\<rparr>) files tks = output_file a files tks"
  by (simp add: output_file_def split: option.splits)


section \<open>The counter of elapsed periods\<close>









lemma capture_file_empty: "t_fs tk name = None \<or> t_fs tk name = Some [] \<Longrightarrow> capture_file name tk = []"
  by (auto simp: capture_file_def)

lemmas sys_eval = sys_mkstemp_def fd_install_def lowest_free_def boot_def usage_def sys_write_def
  fd_lookup_def sys_open_def sys_read_def sys_close_def sys_unlink_def fd_set_def content_def
  timerfd_create_def timerfd_settime_def perror_def read_timer_def read_once_def Let_def

section \<open>Discovery of the stations\<close>

lemma count_names_ge: "cnt \<le> count_names names cnt"
proof (induction names arbitrary: cnt)
  case Nil
  show ?case by simp
next
  case (Cons name rest)
  from Cons [of cnt] Cons [of "cnt + 1"] show ?case by simp
qed

lemma scan_dir_count:
  assumes "cnt \<le> limit"
  shows "fst (scan_dir dir limit names (cnt, S, w))
           = (if count_names names cnt > limit then limit + 1 else count_names names cnt)
       \<and> snd (snd (scan_dir dir limit names (cnt, S, w)))
           = (if count_names names cnt > limit
              then perror (''Error : Too many stations to process'' @ [CHR 0x0A]) w else w)"
  using assms
proof (induction names arbitrary: cnt S)
  case Nil
  then show ?case by simp
next
  case (Cons name rest)
  show ?case
  proof (cases "name = ''.'' \<or> name = ''..''")
    case True
    with Cons.IH [OF Cons.prems, of S] show ?thesis by auto
  next
    case False
    show ?thesis
    proof (cases "cnt + 1 > limit")
      case True
      with count_names_ge [of "cnt + 1" rest] have "count_names rest (cnt + 1) > limit" by simp
      with True False Cons.prems show ?thesis by (simp add: Let_def)
    next
      case g: False
      then have "cnt + 1 \<le> limit" by simp
      from Cons.IH [OF this] g False show ?thesis by (simp add: Let_def)
    qed
  qed
qed

lemma c_div2_nonneg: "0 \<le> limit \<Longrightarrow> 0 \<le> c_div2 limit"
  by (simp add: c_div2_def)

lemma stations_open_count:
  assumes "0 \<le> limit"
  shows "fst (stations_open d S limit w)
           = (if fst (count_stations d w) > c_div2 limit then c_div2 limit + 1
              else fst (count_stations d w))
       \<and> snd (snd (stations_open d S limit w))
           = (if fst (count_stations d w) > c_div2 limit
              then perror (''Error : Too many stations to process'' @ [CHR 0x0A]) (snd (count_stations d w))
              else snd (count_stations d w))"
proof -
  obtain phy w1 where ww: "wifi_where d w = (phy, w1)"
    by (cases "wifi_where d w")
  obtain r w2 where de: "dir_exists (stations_dir phy d) w1 = (r, w2)"
    by (cases "dir_exists (stations_dir phy d) w1")
  note nn = c_div2_nonneg [OF assms]
  show ?thesis
  proof (cases r)
    case None
    with ww de nn show ?thesis
      by (simp add: stations_open_def count_stations_def Let_def)
  next
    case (Some names)
    from scan_dir_count [OF nn, of "stations_dir phy d" names
        "S(0 := (S 0)\<lparr>rc_stats := - 1, airtime := - 1\<rparr>)" w2]
    show ?thesis
      using ww de Some
      by (simp add: stations_open_def count_stations_def Let_def case_prod_beta)
  qed
qed

lemma dec_0: "dec 0 = ''0''"
  by (simp add: dec.simps digit_def)

lemma stations_dir_0: "stations_dir 0 d = ''/sys/kernel/debug/ieee80211/phy0/netdev:'' @ d @ ''/stations''"
  by (simp add: stations_dir_def fmt_ld_def dec_0)

lemma wifi_where_phy0:
  "dirs w (stations_dir 0 d) \<noteq> None \<Longrightarrow> wifi_where d w = (0, w)"
  by (auto simp: wifi_where_def upt_rec [of 0 10] dir_exists_def)

lemma count_stations_phy0:
  "dirs w (stations_dir 0 d) = Some names \<Longrightarrow> count_stations d w = (count_names names 0, w)"
  by (simp add: count_stations_def wifi_where_phy0 dir_exists_def)

section \<open>Reading the stations\<close>

lemma read_stream_closed: "\<not> fd > 0 \<Longrightarrow> read_stream fd label s = s"
  by (cases s) (simp add: read_stream_def)

lemma read_stream_open:
  assumes "fd > 0" and "fd_lookup w fd = Some (Rd p 0)" and "load buf n = t"
  shows "\<exists>buf'. read_stream fd label (buf, int n, w)
           = (buf', int (n + length (label @ take 8192 (content w p))),
              fd_set fd (Rd p (length (take 8192 (content w p)))) w)
         \<and> load buf' (n + length (label @ take 8192 (content w p))) = t @ label @ take 8192 (content w p)"
proof -
  define d where "d = take 8192 (content w p)"
  define buf' where "buf' = store (sprintf buf n label) (n + length label) d"
  have rd: "sys_read fd 8192 w = (int (length d), d, fd_set fd (Rd p (length d)) w)"
    using sys_read_Rd [OF assms(2), of 8192] by (simp add: d_def)
  have "nat (int n + int (length label)) = n + length label"
    by (simp add: nat_add_distrib)
  then have "read_stream fd label (buf, int n, w)
      = (buf', int (n + length (label @ d)), fd_set fd (Rd p (length d)) w)"
    using assms(1) rd by (simp add: read_stream_def Let_def buf'_def)
  moreover have "load buf' (n + length (label @ d)) = t @ label @ d"
    using load_store_append [of "sprintf buf n label" "n + length label" d]
      load_sprintf_append [of buf n label] assms(3)
    by (simp add: buf'_def add.assoc)
  ultimately show ?thesis
    unfolding d_def by blast
qed

lemma fs_fd_set [simp]: "fs (fd_set fd d w) = fs w"
  by (simp add: fd_set_def)

lemma stream_step:
  assumes "reopened w h path" and "load buf n = t"
  shows "\<exists>buf' w'. read_stream h label (buf, int n, w)
           = (buf', int (n + length (stream_text w label path)), w')
         \<and> load buf' (n + length (stream_text w label path)) = t @ stream_text w label path
         \<and> fs w' = fs w
         \<and> (\<forall>fd. fd \<noteq> h \<or> \<not> h > 0 \<longrightarrow> fd_lookup w' fd = fd_lookup w fd)"
proof (cases "fs w path")
  case None
  with assms(1) have "\<not> h > 0"
    by (simp add: reopened_def)
  with None assms(2) show ?thesis
    by (simp add: read_stream_closed stream_text_def)
next
  case (Some c)
  with assms(1) have h: "h > 0" and l: "fd_lookup w h = Some (Rd path 0)"
    by (simp_all add: reopened_def)
  from Some have c: "content w path = c"
    by (simp add: content_def)
  from read_stream_open [OF h l assms(2), of label] obtain buf' where
    "read_stream h label (buf, int n, w)
           = (buf', int (n + length (label @ take 8192 (content w path))),
              fd_set h (Rd path (length (take 8192 (content w path)))) w)"
    and "load buf' (n + length (label @ take 8192 (content w path))) = t @ label @ take 8192 (content w path)"
    by blast
  moreover have "fd_lookup w h \<noteq> None"
    using l by simp
  ultimately show ?thesis
    using Some c h
    by (intro exI [of _ buf'] exI [of _ "fd_set h (Rd path (length (take 8192 (content w path)))) w"])
       (simp add: stream_text_def fd_set_lookup)
qed

lemma stream_text_cong: "fs w' = fs w \<Longrightarrow> stream_text w' label path = stream_text w label path"
  by (simp add: stream_text_def)

lemma reopened_cong:
  "fs w' = fs w \<Longrightarrow> fd_lookup w' h = fd_lookup w h \<Longrightarrow> reopened w' h path = reopened w h path"
  by (simp add: reopened_def)

lemma read_one_step:
  assumes "reopened w (airtime (S i)) (airtime_file (S i))"
    and "reopened w (rc_stats (S i)) (rc_stats_file (S i))"
    and "rc_stats (S i) > 0 \<longrightarrow> rc_stats (S i) \<noteq> airtime (S i)"
    and "load buf n = t"
  shows "\<exists>buf' w'. read_one S i (buf, int n, w)
           = (buf', int (n + length (station_block w (S i))), w')
         \<and> load buf' (n + length (station_block w (S i))) = t @ station_block w (S i)
         \<and> fs w' = fs w
         \<and> (\<forall>fd. fd \<notin> owns (S i) \<longrightarrow> fd_lookup w' fd = fd_lookup w fd)"
proof -
  define label where "label = ''Station: '' @ macaddr (S i) @ [CHR 0x0A]"
  define ta where "ta = stream_text w (''Airtime:'' @ [CHR 0x0A]) (airtime_file (S i))"
  define tr where "tr = stream_text w (''RC stats:'' @ [CHR 0x0A]) (rc_stats_file (S i))"
  have l0: "load (sprintf buf n label) (n + length label) = t @ label"
    using assms(4) by (simp add: load_sprintf_append)
  from stream_step [OF assms(1) l0, of "''Airtime:'' @ [CHR 0x0A]"]
  obtain buf1 w1 where s1: "read_stream (airtime (S i)) (''Airtime:'' @ [CHR 0x0A])
         (sprintf buf n label, int (n + length label), w) = (buf1, int (n + length label + length ta), w1)"
    and l1: "load buf1 (n + length label + length ta) = (t @ label) @ ta"
    and f1: "fs w1 = fs w"
    and k1: "\<forall>fd. fd \<noteq> airtime (S i) \<or> \<not> airtime (S i) > 0 \<longrightarrow> fd_lookup w1 fd = fd_lookup w fd"
    unfolding ta_def by blast
  have "fd_lookup w1 (rc_stats (S i)) = fd_lookup w (rc_stats (S i)) \<or> \<not> rc_stats (S i) > 0"
    using k1 assms(3) by auto
  then have r1: "reopened w1 (rc_stats (S i)) (rc_stats_file (S i))"
    using assms(2) f1 by (auto simp: reopened_def split: if_splits)
  have tr1: "stream_text w1 (''RC stats:'' @ [CHR 0x0A]) (rc_stats_file (S i)) = tr"
    unfolding tr_def by (rule stream_text_cong [OF f1])
  from stream_step [OF r1 l1, of "''RC stats:'' @ [CHR 0x0A]"]
  obtain buf2 w2 where s2: "read_stream (rc_stats (S i)) (''RC stats:'' @ [CHR 0x0A])
         (buf1, int (n + length label + length ta), w1)
           = (buf2, int (n + length label + length ta + length tr), w2)"
    and l2: "load buf2 (n + length label + length ta + length tr) = ((t @ label) @ ta) @ tr"
    and f2: "fs w2 = fs w1"
    and k2: "\<forall>fd. fd \<noteq> rc_stats (S i) \<or> \<not> rc_stats (S i) > 0 \<longrightarrow> fd_lookup w2 fd = fd_lookup w1 fd"
    unfolding tr1 by blast
  have blk: "station_block w (S i) = label @ ta @ tr"
    by (simp add: station_block_def label_def ta_def tr_def)
  have ro: "read_one S i (buf, int n, w)
      = read_stream (rc_stats (S i)) (''RC stats:'' @ [CHR 0x0A])
          (read_stream (airtime (S i)) (''Airtime:'' @ [CHR 0x0A])
             (sprintf buf n label, int (n + length label), w))"
    unfolding read_one_def Let_def label_def by (simp add: algebra_simps)
  have "read_one S i (buf, int n, w) = (buf2, int (n + length label + length ta + length tr), w2)"
    unfolding ro s1 s2 by (rule refl)
  moreover have "\<forall>fd. fd \<notin> owns (S i) \<longrightarrow> fd_lookup w2 fd = fd_lookup w fd"
    using k1 k2 by (auto simp: owns_def)
  ultimately show ?thesis
    using l2 f1 f2 blk
    by (intro exI [of _ buf2] exI [of _ w2]) (simp add: add.assoc)
qed

lemma stations_read_fold:
  assumes "separate n S" and "\<forall>i<n. fresh w (S i)" and "k \<le> n"
  shows "\<exists>buf' w'. fold (read_one S) [0..<k] (buf, 0, w)
           = (buf', int (length (concat (map (\<lambda>i. station_block w (S i)) [0..<k]))), w')
         \<and> load buf' (length (concat (map (\<lambda>i. station_block w (S i)) [0..<k])))
             = concat (map (\<lambda>i. station_block w (S i)) [0..<k])
         \<and> fs w' = fs w
         \<and> (\<forall>fd. (\<forall>i<k. fd \<notin> owns (S i)) \<longrightarrow> fd_lookup w' fd = fd_lookup w fd)"
  using assms(3)
proof (induction k)
  case 0
  show ?case
    by (simp add: load_def)
next
  case (Suc k)
  define P where "P = concat (map (\<lambda>i. station_block w (S i)) [0..<k])"
  from Suc have "k \<le> n" and kn: "k < n"
    by simp_all
  from Suc.IH [OF \<open>k \<le> n\<close>] obtain buf1 w1 where
    f: "fold (read_one S) [0..<k] (buf, 0, w) = (buf1, int (length P), w1)"
    and l: "load buf1 (length P) = P"
    and fs1: "fs w1 = fs w"
    and k1: "\<forall>fd. (\<forall>i<k. fd \<notin> owns (S i)) \<longrightarrow> fd_lookup w1 fd = fd_lookup w fd"
    unfolding P_def by blast
  have own: "\<And>h. h \<in> owns (S k) \<Longrightarrow> fd_lookup w1 h = fd_lookup w h"
  proof -
    fix h assume h: "h \<in> owns (S k)"
    have "\<forall>i<k. h \<notin> owns (S i)"
    proof (intro allI impI)
      fix i assume "i < k"
      with kn have "i < n" "i \<noteq> k" by simp_all
      with assms(1) kn have "owns (S i) \<inter> owns (S k) = {}"
        by (simp add: separate_def)
      with h show "h \<notin> owns (S i)" by blast
    qed
    with k1 show "fd_lookup w1 h = fd_lookup w h" by simp
  qed
  from assms(2) kn have fr: "fresh w (S k)"
    by simp
  have ra: "reopened w1 (airtime (S k)) (airtime_file (S k))"
  proof (cases "airtime (S k) > 0")
    case True
    then have "airtime (S k) \<in> owns (S k)" by (simp add: owns_def)
    from own [OF this] fr fs1 show ?thesis by (simp add: fresh_def reopened_def)
  next
    case False
    with fr fs1 show ?thesis by (simp add: fresh_def reopened_def split: if_splits)
  qed
  have rr: "reopened w1 (rc_stats (S k)) (rc_stats_file (S k))"
  proof (cases "rc_stats (S k) > 0")
    case True
    then have "rc_stats (S k) \<in> owns (S k)" by (simp add: owns_def)
    from own [OF this] fr fs1 show ?thesis by (simp add: fresh_def reopened_def)
  next
    case False
    with fr fs1 show ?thesis by (simp add: fresh_def reopened_def split: if_splits)
  qed
  from assms(1) kn have ne: "rc_stats (S k) > 0 \<longrightarrow> rc_stats (S k) \<noteq> airtime (S k)"
    by (simp add: separate_def)
  have blk: "station_block w1 (S k) = station_block w (S k)"
    by (simp add: station_block_def stream_text_cong [OF fs1])
  from read_one_step [where S = S and i = k, OF ra rr ne l] obtain buf2 w2 where
    r: "read_one S k (buf1, int (length P), w1) = (buf2, int (length P + length (station_block w (S k))), w2)"
    and l2: "load buf2 (length P + length (station_block w (S k))) = P @ station_block w (S k)"
    and fs2: "fs w2 = fs w1"
    and k2: "\<forall>fd. fd \<notin> owns (S k) \<longrightarrow> fd_lookup w2 fd = fd_lookup w1 fd"
    unfolding blk by blast
  have k3: "\<forall>fd. (\<forall>i<Suc k. fd \<notin> owns (S i)) \<longrightarrow> fd_lookup w2 fd = fd_lookup w fd"
    using k1 k2 by (simp add: less_Suc_eq)
  have c: "concat (map (\<lambda>i. station_block w (S i)) [0..<Suc k]) = P @ station_block w (S k)"
    by (simp add: P_def)
  have "fold (read_one S) [0..<Suc k] (buf, 0, w)
      = (buf2, int (length (P @ station_block w (S k))), w2)"
    using f r by simp
  then show ?case
    unfolding c using l2 fs1 fs2 k3
    by (intro exI [of _ buf2] exI [of _ w2]) simp
qed

section \<open>Reopening the stations\<close>

lemma sys_close_lookup:
  "fd_lookup (sys_close fd w) fd' = (if fd' = fd then None else fd_lookup w fd')"
  by (auto simp: sys_close_def fd_lookup_def nat_eq_iff split: option.splits if_splits)

lemma sys_open_absent:
  "fs w p = None \<Longrightarrow> fst (sys_open p w) = - 1 \<and> fs (snd (sys_open p w)) = fs w
     \<and> fd_lookup (snd (sys_open p w)) fd = fd_lookup w fd"
  by (simp add: sys_open_def fd_lookup_def)

lemma sys_open_present:
  assumes "fs w p \<noteq> None"
  shows "0 \<le> fst (sys_open p w) \<and> fs (snd (sys_open p w)) = fs w
     \<and> fd_lookup w (fst (sys_open p w)) = None
     \<and> fd_lookup (snd (sys_open p w)) fd
         = (if fd = fst (sys_open p w) then Some (Rd p 0) else fd_lookup w fd)"
proof -
  obtain h w' where i: "fd_install (Rd p 0) w = (h, w')"
    by (cases "fd_install (Rd p 0) w")
  from assms i have o: "sys_open p w = (h, w')"
    by (auto simp: sys_open_def)
  have "fs w' = fs w"
    using fd_install_fields [OF i] by (metis world.select_convs(1) world.surjective world.update_convs(5))
  with fd_install_new [OF i] fd_install_other [OF i, of fd] show ?thesis
    unfolding o by auto
qed


lemma reset_one_step:
  assumes td: "tidy n S w" and i: "i < n" and ro: "reset_one i (S, w) = (S', w')"
  shows "(\<forall>j. j \<noteq> i \<longrightarrow> S' j = S j)
     \<and> macaddr (S' i) = macaddr (S i) \<and> airtime_file (S' i) = airtime_file (S i)
     \<and> rc_stats_file (S' i) = rc_stats_file (S i)
     \<and> fresh w' (S' i) \<and> fs w' = fs w \<and> tidy n S' w'
     \<and> (\<forall>fd. fd \<notin> owns (S i) \<and> fd \<notin> owns (S' i) \<longrightarrow> fd_lookup w' fd = fd_lookup w fd)
     \<and> (\<forall>fd\<in>owns (S i). fd \<notin> owns (S' i) \<longrightarrow> fd_lookup w' fd = None)"
proof -
  define rcf where "rcf = rc_stats_file (S i)"
  define arf where "arf = airtime_file (S i)"
  define w1 where "w1 = (if rc_stats (S i) \<noteq> 0 then sys_close (rc_stats (S i)) w else w)"
  define w2 where "w2 = (if airtime (S i) \<noteq> 0 then sys_close (airtime (S i)) w1 else w1)"
  define r where "r = fst (sys_open rcf w2)"
  define w3 where "w3 = snd (sys_open rcf w2)"
  define t where "t = fst (sys_open arf w3)"
  define w4 where "w4 = snd (sys_open arf w3)"
  have "reset_one i (S, w) = (S(i := (S i)\<lparr>rc_stats := r, airtime := t\<rparr>), w4)"
    unfolding reset_one_def Let_def rcf_def arf_def w1_def w2_def r_def w3_def t_def w4_def
    by (simp split del: if_split)
  with ro have S': "S' = S(i := (S i)\<lparr>rc_stats := r, airtime := t\<rparr>)" and w': "w' = w4"
    by simp_all
  have z: "fd_lookup w 0 \<noteq> None"
    using td by (simp add: tidy_def)
  have neg: "\<And>fd. fd < 0 \<Longrightarrow> fd_lookup w fd = None"
    by (simp add: fd_lookup_def)
  have L2: "\<And>fd. fd_lookup w2 fd = (if fd \<in> owns (S i) then None else fd_lookup w fd)"
  proof -
    fix fd
    show "fd_lookup w2 fd = (if fd \<in> owns (S i) then None else fd_lookup w fd)"
      using neg [of fd] by (cases "fd < 0") (auto simp: w1_def w2_def sys_close_lookup owns_def)
  qed
  have f2: "fs w2 = fs w"
    by (simp add: w1_def w2_def)
  have R: "(fs w rcf = None \<and> r = - 1 \<and> (\<forall>fd. fd_lookup w3 fd = fd_lookup w2 fd))
         \<or> (fs w rcf \<noteq> None \<and> 0 \<le> r \<and> fd_lookup w2 r = None
             \<and> (\<forall>fd. fd_lookup w3 fd = (if fd = r then Some (Rd rcf 0) else fd_lookup w2 fd)))"
    using sys_open_absent [of w2 rcf] sys_open_present [of w2 rcf] f2
    by (cases "fs w rcf = None") (simp_all add: r_def w3_def)
  have f3: "fs w3 = fs w"
    using sys_open_absent [of w2 rcf] sys_open_present [of w2 rcf] f2
    by (cases "fs w rcf = None") (simp_all add: w3_def)
  have T: "(fs w arf = None \<and> t = - 1 \<and> (\<forall>fd. fd_lookup w4 fd = fd_lookup w3 fd))
         \<or> (fs w arf \<noteq> None \<and> 0 \<le> t \<and> fd_lookup w3 t = None
             \<and> (\<forall>fd. fd_lookup w4 fd = (if fd = t then Some (Rd arf 0) else fd_lookup w3 fd)))"
    using sys_open_absent [of w3 arf] sys_open_present [of w3 arf] f3
    by (cases "fs w arf = None") (simp_all add: t_def w4_def)
  have f4: "fs w4 = fs w"
    using sys_open_absent [of w3 arf] sys_open_present [of w3 arf] f3
    by (cases "fs w arf = None") (simp_all add: w4_def)
  have z2: "fd_lookup w2 0 \<noteq> None"
    using z by (simp add: L2 owns_def)
  have rpos: "r = - 1 \<or> 0 < r"
    using R z2 by (cases "r = 0") auto
  have z3: "fd_lookup w3 0 \<noteq> None"
    using R z2 rpos by auto
  have tpos: "t = - 1 \<or> 0 < t"
    using T z3 by (cases "t = 0") auto
  have rt: "0 < r \<Longrightarrow> r \<noteq> t"
    using R T by auto
  have own': "owns (S' i) = {h. 0 < h \<and> (h = r \<or> h = t)}"
    by (simp add: S' owns_def)
  have oth: "\<And>j. j \<noteq> i \<Longrightarrow> S' j = S j"
    by (simp add: S')
  have c1: "\<forall>fd. fd \<notin> owns (S i) \<and> fd \<notin> owns (S' i) \<longrightarrow> fd_lookup w4 fd = fd_lookup w fd"
    using R T L2 rpos tpos unfolding own' by auto
  have c2: "\<forall>fd\<in>owns (S i). fd \<notin> owns (S' i) \<longrightarrow> fd_lookup w4 fd = None"
    using R T L2 rpos tpos unfolding own' by auto
  have fr: "fresh w4 (S' i)"
    using R T rpos tpos rt f4 by (auto simp: fresh_def reopened_def S' rcf_def arf_def)
  have op_i: "\<forall>h\<in>owns (S' i). fd_lookup w4 h \<noteq> None"
    using R T rpos tpos rt unfolding own' by auto
  have free: "\<And>h. h \<in> owns (S' i) \<Longrightarrow> fd_lookup w h = None \<or> h \<in> owns (S i)"
    using R T L2 rpos tpos unfolding own' by (auto split: if_splits)
  have disj: "\<And>j. j < n \<Longrightarrow> j \<noteq> i \<Longrightarrow> owns (S' i) \<inter> owns (S j) = {}"
  proof -
    fix j assume j: "j < n" "j \<noteq> i"
    with td i have d: "owns (S i) \<inter> owns (S j) = {}" and o: "\<forall>h\<in>owns (S j). fd_lookup w h \<noteq> None"
      by (simp_all add: tidy_def separate_def)
    show "owns (S' i) \<inter> owns (S j) = {}"
      using free d o by blast
  qed
  have sep: "separate n S'"
    unfolding separate_def
  proof (intro conjI allI impI)
    fix j assume "j < n" "0 < rc_stats (S' j)"
    then show "rc_stats (S' j) \<noteq> airtime (S' j)"
      using td rt by (cases "j = i") (auto simp: S' tidy_def separate_def)
  next
    fix j k assume jk: "j < n" "k < n" "j \<noteq> k"
    show "owns (S' j) \<inter> owns (S' k) = {}"
    proof (cases "j = i")
      case True
      with jk disj [of k] oth [of k] show ?thesis by simp
    next
      case False
      note ji = this
      show ?thesis
      proof (cases "k = i")
        case True
        with jk disj [of j] oth [of j] show ?thesis by auto
      next
        case False
        with ji jk td oth [of j] oth [of k] show ?thesis
          by (simp add: tidy_def separate_def)
      qed
    qed
  qed
  have opn: "\<forall>j<n. \<forall>h\<in>owns (S' j). fd_lookup w4 h \<noteq> None"
  proof (intro allI impI ballI)
    fix j h assume j: "j < n" and h: "h \<in> owns (S' j)"
    show "fd_lookup w4 h \<noteq> None"
    proof (cases "j = i")
      case True
      with h op_i show ?thesis by simp
    next
      case False
      with h oth have hj: "h \<in> owns (S j)" by simp
      with td j have o: "fd_lookup w h \<noteq> None" by (simp add: tidy_def)
      from td i j False have "owns (S i) \<inter> owns (S j) = {}" by (simp add: tidy_def separate_def)
      with hj have n1: "h \<notin> owns (S i)" by blast
      from disj [OF j False] hj have n2: "h \<notin> owns (S' i)" by blast
      from c1 n1 n2 o show ?thesis by simp
    qed
  qed
  have z4: "fd_lookup w4 0 \<noteq> None"
    using c1 z by (simp add: owns_def own')
  have td': "tidy n S' w4"
    using z4 sep opn by (simp add: tidy_def)
  have loc: "macaddr (S' i) = macaddr (S i) \<and> airtime_file (S' i) = airtime_file (S i)
     \<and> rc_stats_file (S' i) = rc_stats_file (S i)"
    by (simp add: S')
  show ?thesis
    unfolding w' using oth loc fr f4 td' c1 c2 by blast
qed


lemma fresh_cong:
  assumes "fresh w s" and "fs w' = fs w" and "\<And>h. h \<in> owns s \<Longrightarrow> fd_lookup w' h = fd_lookup w h"
  shows "fresh w' s"
proof -
  have "\<And>h p. reopened w h p \<Longrightarrow> h = rc_stats s \<or> h = airtime s \<Longrightarrow> reopened w' h p"
  proof -
    fix h p assume r: "reopened w h p" and h: "h = rc_stats s \<or> h = airtime s"
    show "reopened w' h p"
    proof (cases "fs w p = None")
      case True
      with r assms(2) show ?thesis by (simp add: reopened_def)
    next
      case False
      with r have "0 < h" and l: "fd_lookup w h = Some (Rd p 0)" by (simp_all add: reopened_def)
      with h have "h \<in> owns s" by (auto simp: owns_def)
      from assms(3) [OF this] l False \<open>0 < h\<close> assms(2) show ?thesis by (simp add: reopened_def)
    qed
  qed
  with assms(1) show ?thesis by (simp add: fresh_def)
qed

lemma stations_reset_fold:
  assumes td: "tidy n S w"
  shows "k \<le> n \<Longrightarrow> fold reset_one [0..<k] (S, w) = (S', w') \<Longrightarrow>
     (\<forall>j. k \<le> j \<longrightarrow> S' j = S j)
     \<and> (\<forall>j. macaddr (S' j) = macaddr (S j) \<and> airtime_file (S' j) = airtime_file (S j)
           \<and> rc_stats_file (S' j) = rc_stats_file (S j))
     \<and> (\<forall>j<k. fresh w' (S' j))
     \<and> fs w' = fs w \<and> tidy n S' w'
     \<and> (\<forall>fd. (\<forall>j<k. fd \<notin> owns (S j) \<and> fd \<notin> owns (S' j)) \<longrightarrow> fd_lookup w' fd = fd_lookup w fd)
     \<and> (\<forall>j<k. \<forall>fd\<in>owns (S j). (\<forall>m<k. fd \<notin> owns (S' m)) \<longrightarrow> fd_lookup w' fd = None)"
proof (induction k arbitrary: S' w')
  case 0
  with td show ?case by simp
next
  case (Suc k)
  obtain S1 w1 where f1: "fold reset_one [0..<k] (S, w) = (S1, w1)"
    by (cases "fold reset_one [0..<k] (S, w)")
  from Suc.prems have kn: "k < n" and "k \<le> n" by simp_all
  from Suc.IH [OF \<open>k \<le> n\<close> f1] have
    a1: "\<And>j. k \<le> j \<Longrightarrow> S1 j = S j"
    and a2: "\<And>j. macaddr (S1 j) = macaddr (S j) \<and> airtime_file (S1 j) = airtime_file (S j)
           \<and> rc_stats_file (S1 j) = rc_stats_file (S j)"
    and a3: "\<And>j. j < k \<Longrightarrow> fresh w1 (S1 j)"
    and a4: "fs w1 = fs w" and a5: "tidy n S1 w1"
    and a6: "\<And>fd. (\<forall>j<k. fd \<notin> owns (S j) \<and> fd \<notin> owns (S1 j)) \<Longrightarrow> fd_lookup w1 fd = fd_lookup w fd"
    and a7: "\<And>j fd. j < k \<Longrightarrow> fd \<in> owns (S j) \<Longrightarrow> (\<forall>m<k. fd \<notin> owns (S1 m)) \<Longrightarrow> fd_lookup w1 fd = None"
    by simp_all
  from Suc.prems(2) f1 have r: "reset_one k (S1, w1) = (S', w')"
    by simp
  from reset_one_step [OF a5 kn r] have
    b1: "\<And>j. j \<noteq> k \<Longrightarrow> S' j = S1 j"
    and b2: "macaddr (S' k) = macaddr (S1 k) \<and> airtime_file (S' k) = airtime_file (S1 k)
       \<and> rc_stats_file (S' k) = rc_stats_file (S1 k)"
    and b3: "fresh w' (S' k)" and b4: "fs w' = fs w1" and b5: "tidy n S' w'"
    and b6: "\<And>fd. fd \<notin> owns (S1 k) \<Longrightarrow> fd \<notin> owns (S' k) \<Longrightarrow> fd_lookup w' fd = fd_lookup w1 fd"
    and b7: "\<And>fd. fd \<in> owns (S1 k) \<Longrightarrow> fd \<notin> owns (S' k) \<Longrightarrow> fd_lookup w' fd = None"
    by simp_all
  have sk: "S1 k = S k"
    using a1 [of k] by simp
  have sepS: "\<And>j. j < k \<Longrightarrow> owns (S j) \<inter> owns (S k) = {}"
    using td kn by (simp add: tidy_def separate_def)
  have sep1: "\<And>j. j < k \<Longrightarrow> owns (S1 j) \<inter> owns (S1 k) = {}"
    using a5 kn by (simp add: tidy_def separate_def)
  have sep': "\<And>j. j < k \<Longrightarrow> owns (S' j) \<inter> owns (S' k) = {}"
    using b5 kn by (simp add: tidy_def separate_def)
  have c1: "\<forall>j. Suc k \<le> j \<longrightarrow> S' j = S j"
    using a1 b1 by simp
  have c2: "\<forall>j. macaddr (S' j) = macaddr (S j) \<and> airtime_file (S' j) = airtime_file (S j)
           \<and> rc_stats_file (S' j) = rc_stats_file (S j)"
  proof
    fix j
    show "macaddr (S' j) = macaddr (S j) \<and> airtime_file (S' j) = airtime_file (S j)
           \<and> rc_stats_file (S' j) = rc_stats_file (S j)"
      using a2 [of j] b1 [of j] b2 by (cases "j = k") simp_all
  qed
  have c3: "\<forall>j<Suc k. fresh w' (S' j)"
  proof (intro allI impI)
    fix j assume j: "j < Suc k"
    show "fresh w' (S' j)"
    proof (cases "j = k")
      case True
      with b3 show ?thesis by simp
    next
      case False
      with j have jk: "j < k" by simp
      have e: "S' j = S1 j" using b1 False by simp
      have "fresh w' (S1 j)"
      proof (rule fresh_cong [OF a3 [OF jk] b4])
        fix h assume h: "h \<in> owns (S1 j)"
        with sep1 [OF jk] have "h \<notin> owns (S1 k)" by blast
        moreover from h e sep' [OF jk] have "h \<notin> owns (S' k)" by auto
        ultimately show "fd_lookup w' h = fd_lookup w1 h" by (rule b6)
      qed
      with e show ?thesis by simp
    qed
  qed
  have c6: "\<forall>fd. (\<forall>j<Suc k. fd \<notin> owns (S j) \<and> fd \<notin> owns (S' j)) \<longrightarrow> fd_lookup w' fd = fd_lookup w fd"
  proof (intro allI impI)
    fix fd assume h: "\<forall>j<Suc k. fd \<notin> owns (S j) \<and> fd \<notin> owns (S' j)"
    have "\<forall>j<k. fd \<notin> owns (S j) \<and> fd \<notin> owns (S1 j)"
    proof (intro allI impI)
      fix j assume "j < k"
      then have "j < Suc k" "S' j = S1 j" using b1 [of j] by simp_all
      with h show "fd \<notin> owns (S j) \<and> fd \<notin> owns (S1 j)" by metis
    qed
    then have "fd_lookup w1 fd = fd_lookup w fd" by (rule a6)
    moreover from h sk have "fd \<notin> owns (S1 k)" "fd \<notin> owns (S' k)" by simp_all
    then have "fd_lookup w' fd = fd_lookup w1 fd" by (rule b6)
    ultimately show "fd_lookup w' fd = fd_lookup w fd" by simp
  qed
  have c7: "\<forall>j<Suc k. \<forall>fd\<in>owns (S j). (\<forall>m<Suc k. fd \<notin> owns (S' m)) \<longrightarrow> fd_lookup w' fd = None"
  proof (intro allI impI ballI)
    fix j fd assume j: "j < Suc k" and o: "fd \<in> owns (S j)" and n: "\<forall>m<Suc k. fd \<notin> owns (S' m)"
    from n have nk: "fd \<notin> owns (S' k)" by simp
    show "fd_lookup w' fd = None"
    proof (cases "j = k")
      case True
      with o sk have "fd \<in> owns (S1 k)" by simp
      then show ?thesis using nk by (rule b7)
    next
      case False
      with j have jk: "j < k" by simp
      have "\<forall>m<k. fd \<notin> owns (S1 m)"
      proof (intro allI impI)
        fix m assume "m < k"
        then have "m < Suc k" "S' m = S1 m" using b1 [of m] by simp_all
        with n show "fd \<notin> owns (S1 m)" by metis
      qed
      with a7 [OF jk o] have "fd_lookup w1 fd = None" by simp
      moreover from sepS [OF jk] o sk have "fd \<notin> owns (S1 k)" by auto
      then have "fd_lookup w' fd = fd_lookup w1 fd" using nk by (rule b6)
      ultimately show ?thesis by simp
    qed
  qed
  show ?case
    using c1 c2 c3 a4 b4 b5 c6 c7 by simp
qed

section \<open>The guard of the emitter\<close>



section \<open>The counter and the end of the loop\<close>





text \<open>
  Claim C4, evaluated where the code leaves it. The timer read of the tick below fails with
  \<^verbatim>\<open>EINTR\<close> while the uninitialised \<^verbatim>\<open>fired\<close> holds 1 (what a read of the iteration before left in
  its stack slot). \<^verbatim>\<open>perror\<close> logs the warning and the iteration goes on, but \<^verbatim>\<open>ctr += fired\<close> has run
  all the same: the counter has gone from 0 to 1.
\<close>

theorem failed_timer_read_counts:
  "\<exists>b' w'. tick_file ''f'' 1 \<lparr>t_ret = - 1, t_fired = 1, t_errno = EINTR, t_fs = [''f'' \<mapsto> ''42'' @ [CHR 0x0A]], t_child = [], t_now = \<lparr>tv_sec = 1, tv_nsec = 5\<rparr>\<rparr>
       (0, \<lambda>i. CHR 0x00, (boot [''f'' \<mapsto> ''42'' @ [CHR 0x0A]] Map.empty)) = (1, b', w')
     \<and> stderr w' = ''reading timer: Interrupted system call'' @ [CHR 0x0A]"
proof -
  obtain b' w' where "tick_file ''f'' 1 \<lparr>t_ret = - 1, t_fired = 1, t_errno = EINTR, t_fs = [''f'' \<mapsto> ''42'' @ [CHR 0x0A]], t_child = [], t_now = \<lparr>tv_sec = 1, tv_nsec = 5\<rparr>\<rparr>
       (0, \<lambda>i. CHR 0x00, (boot [''f'' \<mapsto> ''42'' @ [CHR 0x0A]] Map.empty))
       = (int32 (0 + t_fired \<lparr>t_ret = - 1, t_fired = 1, t_errno = EINTR, t_fs = [''f'' \<mapsto> ''42'' @ [CHR 0x0A]], t_child = [], t_now = \<lparr>tv_sec = 1, tv_nsec = 5\<rparr>\<rparr>), b', w')"
    and "stderr w' = stderr (boot [''f'' \<mapsto> ''42'' @ [CHR 0x0A]] Map.empty) @ diagnostics_file ''f'' \<lparr>t_ret = - 1, t_fired = 1, t_errno = EINTR, t_fs = [''f'' \<mapsto> ''42'' @ [CHR 0x0A]], t_child = [], t_now = \<lparr>tv_sec = 1, tv_nsec = 5\<rparr>\<rparr> (errno (boot [''f'' \<mapsto> ''42'' @ [CHR 0x0A]] Map.empty))"
    by (rule tick_file_direct [OF std_boot fd_lookup_boot(2)])
  then show ?thesis
    by (simp add: int32_def diagnostics_file_def timer_warning_def errno_timer_def capture_file_def
          BUFFERSIZE_def)
qed

section \<open>Staged and direct output\<close>





section \<open>A capture that fails\<close>

text \<open>
  Claim C7. In an iteration of \<^verbatim>\<open>file_iterate\<close> whose capture fails (the file is absent, or it is
  there and empty), with the sink on the standard output or on the scratch file:
  the sink receives the time line and the separator and no payload byte; the standard error
  receives the line \<^verbatim>\<open>reading file: ...\<close> of \<^verbatim>\<open>perror\<close> (after the warning of the timer read, if there is
  one); and the loop goes on as after any other tick: it runs the next iteration, or leaves
  because the counter has reached the target.
\<close>

theorem capture_failure_tick:
  assumes "std w" and "t_fs tk name = None \<or> t_fs tk name = Some []"
    and "fd_lookup w out = Some Tty_out \<or> staged out w"
  shows "\<exists>b' w'. tick_file name out tk (c, b, w) = (int32 (c + t_fired tk), b', w')
      \<and> (if staged out w
          then tmp_data w' = tmp_data w @ time_line (t_now tk) @ separator \<and> stdout w' = stdout w
          else stdout w' = stdout w @ time_line (t_now tk) @ separator)
      \<and> stderr w' = stderr w @ timer_warning tk (errno w)
            @ ''reading file: '' @ strerror (errno_file name tk (errno w)) @ [CHR 0x0A]
      \<and> do_while (tick_file name out) (again a) (tk # tks) (c, b, w)
          = (if int32 (c + t_fired tk) < a_count a
             then do_while (tick_file name out) (again a) tks (int32 (c + t_fired tk), b', w')
             else Some (int32 (c + t_fired tk), b', w'))"
proof -
  have e: "capture_file name tk = []"
    using assms(2) by (rule capture_file_empty)
  then have sn: "snapshot_file name tk = time_line (t_now tk) @ separator"
    by (simp add: snapshot_file_def BUFFERSIZE_def)
  have dg: "diagnostics_file name tk (errno w) = timer_warning tk (errno w)
            @ ''reading file: '' @ strerror (errno_file name tk (errno w)) @ [CHR 0x0A]"
    using e by (simp add: diagnostics_file_def BUFFERSIZE_def)
  show ?thesis
  proof (cases "staged out w")
    case True
    obtain b' w' where "tick_file name out tk (c, b, w) = (int32 (c + t_fired tk), b', w')"
      and "tmp_data w' = tmp_data w @ snapshot_file name tk" and "stdout w' = stdout w"
      and "stderr w' = stderr w @ diagnostics_file name tk (errno w)"
      by (rule tick_file_staged [OF assms(1) True])
    with True sn dg show ?thesis
      by (intro exI [of _ b'] exI [of _ w']) (simp add: Let_def)
  next
    case False
    with assms(3) have "fd_lookup w out = Some Tty_out" by simp
    from tick_file_direct [OF assms(1) this, of name tk c b]
    obtain b' w' where "tick_file name out tk (c, b, w) = (int32 (c + t_fired tk), b', w')"
      and "stdout w' = stdout w @ snapshot_file name tk"
      and "stderr w' = stderr w @ diagnostics_file name tk (errno w)"
      by metis
    with False sn dg show ?thesis
      by (intro exI [of _ b'] exI [of _ w']) (simp add: Let_def)
  qed
qed

theorem capture_failure_tick_witness:
  "\<exists>b' w'. tick_file ''f'' 1
       \<lparr>t_ret = 8, t_fired = 1, t_errno = ENONE, t_fs = Map.empty, t_child = [],
        t_now = \<lparr>tv_sec = 1, tv_nsec = 5\<rparr>\<rparr>
       (0, \<lambda>i. CHR 0x00, boot Map.empty Map.empty) = (1, b', w')
     \<and> stdout w' = ''Time: 1.000000005'' @ [CHR 0x0A] @ ''---'' @ [CHR 0x0A]
     \<and> stderr w' = ''reading file: Bad file descriptor'' @ [CHR 0x0A]"
proof -
  from capture_failure_tick [where w = "boot Map.empty Map.empty"
       and tk = "\<lparr>t_ret = 8, t_fired = 1, t_errno = ENONE, t_fs = Map.empty, t_child = [],
        t_now = \<lparr>tv_sec = 1, tv_nsec = 5\<rparr>\<rparr>" and name = "''f''" and out = 1 and c = 0
       and b = "\<lambda>i. CHR 0x00" and tks = "[]"
       and a = "\<lparr>a_count = 1, a_interval = \<lparr>tv_sec = 0, tv_nsec = 200000000\<rparr>,
         a_filename = Some ''f'', a_dev = None, a_interface = ''eth0'', a_command = ''qdisc'',
         a_buffer = False\<rparr>"]
  obtain b' w' where "tick_file ''f'' 1
       \<lparr>t_ret = 8, t_fired = 1, t_errno = ENONE, t_fs = Map.empty, t_child = [],
        t_now = \<lparr>tv_sec = 1, tv_nsec = 5\<rparr>\<rparr>
       (0, \<lambda>i. CHR 0x00, boot Map.empty Map.empty) = (1, b', w')"
    and "stdout w' = ''Time: 1.000000005'' @ [CHR 0x0A] @ ''---'' @ [CHR 0x0A]"
    and "stderr w' = ''reading file: Bad file descriptor'' @ [CHR 0x0A]"
    by (auto simp: std_boot fd_lookup_boot staged_def int32_def timer_warning_def errno_file_def
          fmt_eval)
  then show ?thesis
    by blast
qed

section \<open>The layout of a record\<close>

text \<open>
  Claim C3, as amended. With a passing guard and \<open>out\<close> on the standard output,
  \<^verbatim>\<open>wifistats_iterate\<close> emits the time line, the payload, the separator; \<^verbatim>\<open>file_iterate\<close> and
  \<^verbatim>\<open>tc_iterate\<close> (one \<^verbatim>\<open>result\<close> for both) emit the payload, the time line, the separator. The time
  line is \<^verbatim>\<open>Time: \<close>, the seconds, a point, the nanoseconds (nine digits for a valid \<^verbatim>\<open>tv_nsec\<close>) and
  a newline; the separator is \<^verbatim>\<open>---\<close> and a newline.
\<close>

theorem record_layout:
  assumes "fd_lookup w out = Some Tty_out" and "0 \<le> sz" and "bufsize - sz > 40"
  shows "stdout (snd (result_wifi out sz bufsize buffer now w))
           = stdout w @ time_line now @ load buffer (nat sz) @ separator
       \<and> stdout (snd (result out sz bufsize buffer now w))
           = stdout w @ load buffer (nat sz) @ time_line now @ separator
       \<and> time_line now = ''Time: '' @ fmt_ld (tv_sec now) @ ''.'' @ fmt_09ld (tv_nsec now) @ [CHR 0x0A]
       \<and> separator = ''---'' @ [CHR 0x0A]
       \<and> (0 \<le> tv_nsec now \<and> tv_nsec now < 10 ^ 9 \<longrightarrow> length (fmt_09ld (tv_nsec now)) = 9)"
  using assms
  by (simp add: result_emits result_wifi_def sys_write_tty_out time_line_def separator_def
        length_fmt_09ld)

theorem record_layout_witness:
  "stdout (snd (result_wifi 1 3 BUFFERSIZE (store (\<lambda>i. CHR 0x00) 0 (''42'' @ [CHR 0x0A]))
          \<lparr>tv_sec = 1, tv_nsec = 5\<rparr> (boot Map.empty Map.empty)))
     = ''Time: 1.000000005'' @ [CHR 0x0A] @ ''42'' @ [CHR 0x0A] @ ''---'' @ [CHR 0x0A]
   \<and> length (fmt_09ld 5) = 9"
  using record_layout [where w = "boot Map.empty Map.empty" and out = 1 and sz = 3
          and bufsize = BUFFERSIZE and now = "\<lparr>tv_sec = 1, tv_nsec = 5\<rparr>"
          and buffer = "store (\<lambda>i. CHR 0x00) 0 (''42'' @ [CHR 0x0A])"]
  by (simp add: fd_lookup_boot BUFFERSIZE_def load_eval fmt_eval)

text \<open>The claim as stated fails for \<^verbatim>\<open>file_iterate\<close>: the payload comes before the time line.\<close>

theorem file_record_is_payload_first:
  "stdout (snd (result 1 3 BUFFERSIZE (store (\<lambda>i. CHR 0x00) 0 (''42'' @ [CHR 0x0A]))
          \<lparr>tv_sec = 1, tv_nsec = 5\<rparr> (boot Map.empty Map.empty)))
     = ''42'' @ [CHR 0x0A] @ ''Time: 1.000000005'' @ [CHR 0x0A] @ ''---'' @ [CHR 0x0A]
   \<and> stdout (snd (result 1 3 BUFFERSIZE (store (\<lambda>i. CHR 0x00) 0 (''42'' @ [CHR 0x0A]))
          \<lparr>tv_sec = 1, tv_nsec = 5\<rparr> (boot Map.empty Map.empty)))
     \<noteq> time_line \<lparr>tv_sec = 1, tv_nsec = 5\<rparr> @ ''42'' @ [CHR 0x0A] @ separator"
  using result_emits [of 3 BUFFERSIZE 1 "store (\<lambda>i. CHR 0x00) 0 (''42'' @ [CHR 0x0A])"
          "\<lparr>tv_sec = 1, tv_nsec = 5\<rparr>" "boot Map.empty Map.empty"]
  by (simp add: fd_lookup_boot sys_write_tty_out BUFFERSIZE_def load_eval fmt_eval)

section \<open>The scratch file in the name space\<close>

text \<open>
  Claim C9, evaluated where the code leaves it. \<^verbatim>\<open>run\<close> of \<^verbatim>\<open>file_iterate.c\<close> calls \<^verbatim>\<open>unlink(tmpfile)\<close>
  only after the loop and the copy to the standard output. A run with \<^verbatim>\<open>-b\<close> that ends in \<^verbatim>\<open>usage\<close>
  (no file name) or in \<^verbatim>\<open>exit(-1)\<close> (nothing to read at start) has created the scratch file and
  leaves it under its name.
\<close>

theorem scratch_file_left_behind:
  "map_option (\<lambda>(st, w). (st, tmp_link w))
     (run_file \<lparr>a_count = 10, a_interval = \<lparr>tv_sec = 0, tv_nsec = 200000000\<rparr>, a_filename = None,
                a_dev = None, a_interface = ''eth0'', a_command = ''qdisc'', a_buffer = True\<rparr>
        ''AAAAAA'' (\<lambda>i. CHR 0x00) [] (boot Map.empty Map.empty))
   = Some (Exit (- 1), Some ''/tmp/file_iterateAAAAAA'')
   \<and> map_option (\<lambda>(st, w). (st, tmp_link w))
     (run_file \<lparr>a_count = 10, a_interval = \<lparr>tv_sec = 0, tv_nsec = 200000000\<rparr>, a_filename = Some ''f'',
                a_dev = None, a_interface = ''eth0'', a_command = ''qdisc'', a_buffer = True\<rparr>
        ''AAAAAA'' (\<lambda>i. CHR 0x00) [] (boot Map.empty Map.empty))
   = Some (Exit (- 1), Some ''/tmp/file_iterateAAAAAA'')"
  by (simp add: run_file_def sys_eval read_loop.simps BUFFERSIZE_def)

section \<open>The bound on discovery\<close>

text \<open>
  Claim C10. \<^verbatim>\<open>stations_open\<close>, called with a limit \<open>L \<ge> 0\<close>, returns a count of at most \<open>L / 2 + 1\<close>, so
  at most 257 at its call site, where \<open>L\<close> is 512, whatever the directory holds. When the
  directory has more members than \<open>L / 2\<close> (names other than \<^verbatim>\<open>.\<close> and \<^verbatim>\<open>..\<close>, which is what
  \<^verbatim>\<open>count_stations\<close> counts), the enumeration stops at \<open>L / 2 + 1\<close> and the only thing done besides is
  \<^verbatim>\<open>perror("Error : Too many stations to process\n")\<close>; otherwise every member is recorded and
  nothing is reported.
\<close>

theorem stations_open_bounded:
  assumes "0 \<le> limit"
  shows "fst (stations_open d S limit w) \<le> c_div2 limit + 1
       \<and> fst (stations_open d S 512 w) \<le> 257
       \<and> (fst (count_stations d w) > c_div2 limit \<longrightarrow>
            fst (stations_open d S limit w) = c_div2 limit + 1
            \<and> snd (snd (stations_open d S limit w))
                = perror (''Error : Too many stations to process'' @ [CHR 0x0A]) (snd (count_stations d w)))
       \<and> (\<not> fst (count_stations d w) > c_div2 limit \<longrightarrow>
            fst (stations_open d S limit w) = fst (count_stations d w)
            \<and> snd (snd (stations_open d S limit w)) = snd (count_stations d w))"
proof -
  have a: "fst (stations_open d S limit w) \<le> c_div2 limit + 1"
    using stations_open_count [OF assms, of d S w] by (simp split: if_splits)
  have "fst (stations_open d S 512 w) \<le> c_div2 512 + 1"
    using stations_open_count [of 512 d S w] by (simp split: if_splits)
  then have b: "fst (stations_open d S 512 w) \<le> 257"
    by (simp add: c_div2_def)
  from a b stations_open_count [OF assms, of d S w] show ?thesis
    by simp
qed

theorem stations_open_bounded_witness:
  "fst (stations_open ''wlan0'' (\<lambda>i. \<lparr>rc_stats = 0, airtime = 0, macaddr = [], airtime_file = [], rc_stats_file = []\<rparr>) 2
     (boot Map.empty [''/sys/kernel/debug/ieee80211/phy0/netdev:wlan0/stations''
        \<mapsto> [''.'', ''..'', ''AA:BB'', ''CC:DD'', ''EE:FF'']])) = 2
   \<and> stderr (snd (snd (stations_open ''wlan0'' (\<lambda>i. \<lparr>rc_stats = 0, airtime = 0, macaddr = [], airtime_file = [], rc_stats_file = []\<rparr>) 2
     (boot Map.empty [''/sys/kernel/debug/ieee80211/phy0/netdev:wlan0/stations''
        \<mapsto> [''.'', ''..'', ''AA:BB'', ''CC:DD'', ''EE:FF'']]))))
       = ''Error : Too many stations to process'' @ [CHR 0x0A] @ '': Success'' @ [CHR 0x0A]"
proof -
  define w where "w = boot Map.empty [''/sys/kernel/debug/ieee80211/phy0/netdev:wlan0/stations''
        \<mapsto> [''.'', ''..'', ''AA:BB'', ''CC:DD'', ''EE:FF'']]"
  have d: "dirs w (stations_dir 0 ''wlan0'') = Some [''.'', ''..'', ''AA:BB'', ''CC:DD'', ''EE:FF'']"
    by (simp add: w_def boot_def stations_dir_0)
  have c: "count_stations ''wlan0'' w = (3, w)"
    using count_stations_phy0 [OF d] by simp
  have p: "stderr (perror (''Error : Too many stations to process'' @ [CHR 0x0A]) w)
       = ''Error : Too many stations to process'' @ [CHR 0x0A] @ '': Success'' @ [CHR 0x0A]"
    by (simp add: w_def perror_def sys_write_def fd_lookup_def boot_def)
  from stations_open_bounded [of 2 "''wlan0''"
      "\<lambda>i. \<lparr>rc_stats = 0, airtime = 0, macaddr = [], airtime_file = [], rc_stats_file = []\<rparr>" w]
  show ?thesis
    unfolding w_def [symmetric] using c p by (simp add: c_div2_def)
qed

end
